theory Spec2Isabelle
  imports Main
begin

section \<open>Values as the reflection API of the source sees them\<close>

text \<open>
  The functions of \<^verbatim>\<open>encrypt.go\<close> inspect their argument through Go's \<^verbatim>\<open>reflect\<close>
  package. A value is modelled by its kind and contents: strings, two representative
  scalar kinds that no branch of the source looks into, structs (the type's name as
  \<^verbatim>\<open>Type().String()\<close> prints it, and the fields in declaration order), pointers
  (\<open>None\<close> is the nil pointer), slices, and slots of interface type (\<open>None\<close> is the nil
  interface). A struct field carries its name, whether it is exported, its struct tag as an
  association list from tag keys to tag values, and its value.

  String-kinded values are taken to be of the predeclared type \<^verbatim>\<open>string\<close>. Values are
  trees: a cyclic object graph is not a value of this type.
\<close>

datatype val =
    VString string
  | VInt int
  | VBool bool
  | VStruct string "field list"
  | VPtr "val option"
  | VSlice "val list"
  | VIface "val option"
and field = Field (fname: string) (exported: bool) (ftag: "(string \<times> string) list") (fval: val)

datatype kind = Invalid | KBool | KInt | KString | KStruct | KPtr | KSlice | KInterface

text \<open>\<^verbatim>\<open>Value.Kind()\<close>; the zero Value (\<open>None\<close>) has kind Invalid.\<close>

fun Kind :: "val option \<Rightarrow> kind" where
  "Kind None = Invalid"
| "Kind (Some (VString _)) = KString"
| "Kind (Some (VInt _)) = KInt"
| "Kind (Some (VBool _)) = KBool"
| "Kind (Some (VStruct _ _)) = KStruct"
| "Kind (Some (VPtr _)) = KPtr"
| "Kind (Some (VSlice _)) = KSlice"
| "Kind (Some (VIface _)) = KInterface"

text \<open>
  \<^verbatim>\<open>Value.Elem()\<close>: the target of a pointer or the content of an interface slot, the zero
  Value for nil. The source calls it only behind a test for kind Ptr.
\<close>

fun Elem :: "val option \<Rightarrow> val option" where
  "Elem (Some (VPtr p)) = p"
| "Elem (Some (VIface p)) = p"
| "Elem _ = None"

text \<open>\<^verbatim>\<open>Value.Type().String()\<close>, which the source reads of struct-kinded values only.\<close>

fun TypeString :: "val option \<Rightarrow> string" where
  "TypeString (Some (VStruct t _)) = t"
| "TypeString (Some (VString _)) = ''string''"
| "TypeString (Some (VInt _)) = ''int''"
| "TypeString (Some (VBool _)) = ''bool''"
| "TypeString _ = ''''"

text \<open>
  \<^verbatim>\<open>reflect.ValueOf(x)\<close> takes its argument as \<^verbatim>\<open>interface{}\<close>: an argument of interface
  type is replaced by the value it holds, and the nil interface gives the zero Value.
\<close>

fun ValueOf :: "val \<Rightarrow> val option" where
  "ValueOf (VIface None) = None"
| "ValueOf (VIface (Some v)) = Some v"
| "ValueOf v = Some v"

text \<open>
  The final \<^verbatim>\<open>.Interface().(T)\<close>: the result has the static type of \<open>input\<close>, so it is
  an interface slot exactly when \<open>input\<close> is one.
\<close>

fun assertT :: "val \<Rightarrow> val \<Rightarrow> val" where
  "assertT (VIface _) r = VIface (Some r)"
| "assertT _ r = r"

text \<open>\<^verbatim>\<open>StructTag.Get(key)\<close>: the value of the first entry for \<open>key\<close>, the empty string if none.\<close>

definition Tag_Get :: "(string \<times> string) list \<Rightarrow> string \<Rightarrow> string" where
  "Tag_Get tg k = (case map_of tg k of None \<Rightarrow> '''' | Some v \<Rightarrow> v)"

section \<open>Errors, outcomes and the leaf cipher\<close>

datatype error = Errorf string

text \<open>
  \<^verbatim>\<open>Encrypt\<close> and \<^verbatim>\<open>Decrypt\<close> live in \<^verbatim>\<open>aes.go\<close>, outside the files at hand. They are
  parameters of the model: a cipher maps a text and a key to an error or a text.
\<close>

type_synonym cipher = "string \<Rightarrow> string \<Rightarrow> error + string"

text \<open>
  A call of an entry point panics or returns a value and an optional error. Every function
  also yields the texts it handed to the cipher, in call order.
\<close>

datatype outcome = Panic | Return val "error option"

datatype 'a res = Pan | Err error | Ok 'a

type_synonym trace = "string list"

section \<open>Duplication\<close>

text \<open>
  Modelled from the spec: \<^verbatim>\<open>Copy\<close> is defined in \<^verbatim>\<open>deepcopy.go\<close>, which is not among the
  files at hand. The spec (4.1) describes it: scalars are copied by value; a reference keeps
  its null-ness and a non-null reference is duplicated into a new target; a sequence is
  duplicated into a sequence of the same length and order, each element duplicated by the
  same rule; the copy equals the value field for field.
\<close>

fun Copy :: "val \<Rightarrow> val" and Copy_field :: "field \<Rightarrow> field" where
  "Copy (VString s) = VString s"
| "Copy (VInt i) = VInt i"
| "Copy (VBool b) = VBool b"
| "Copy (VStruct t fs) = VStruct t (map Copy_field fs)"
| "Copy (VPtr None) = VPtr None"
| "Copy (VPtr (Some v)) = VPtr (Some (Copy v))"
| "Copy (VSlice xs) = VSlice (map Copy xs)"
| "Copy (VIface None) = VIface None"
| "Copy (VIface (Some v)) = VIface (Some (Copy v))"
| "Copy_field (Field n e tg v) = Field n e tg (Copy v)"

lemma Copy_id_aux: "Copy v = v" "Copy_field f = f"
  by (induction v and f rule: Copy_Copy_field.induct) (simp_all add: map_idI)

lemmas Copy_id [simp] = Copy_id_aux

section \<open>The struct traversal, typed entry point, encrypt direction\<close>

text \<open>\<^verbatim>\<open>Value.String()\<close>, which the source calls on string-kinded values only.\<close>

fun StringOf :: "val option \<Rightarrow> string" where
  "StringOf (Some (VString s)) = s"
| "StringOf None = ''<invalid Value>''"
| "StringOf v = ''<'' @ TypeString v @ '' Value>''"

text \<open>Assignment to \<^verbatim>\<open>output.Field(i)\<close>: the field keeps its name, tag and visibility.\<close>

fun Set_field :: "field \<Rightarrow> val \<Rightarrow> field" where
  "Set_field (Field n e tg _) v = Field n e tg v"

lemma size_Elem: "Elem (Some v) = Some e \<Longrightarrow> size e < size v"
  by (cases v) auto

lemma size_ValueOf: "ValueOf x = Some v \<Longrightarrow> size v \<le> size x"
  by (cases x rule: ValueOf.cases) auto

lemma size_root:
  assumes "(if Kind (ValueOf x) = KPtr then Elem (ValueOf x) else ValueOf x) = Some (VStruct t fs)"
  shows "size_list size fs < size x"
proof (cases "ValueOf x")
  case None
  with assms show ?thesis by simp
next
  case (Some v)
  have le: "size v \<le> size x" using Some by (rule size_ValueOf)
  show ?thesis
  proof (cases "Kind (Some v) = KPtr")
    case True
    with assms Some have "Elem (Some v) = Some (VStruct t fs)" by simp
    then have "size (VStruct t fs) < size v" by (rule size_Elem)
    with le show ?thesis by simp
  next
    case False
    with assms Some have "v = VStruct t fs" by simp
    with le show ?thesis by simp
  qed
qed

text \<open>
  \<^verbatim>\<open>StructEncryptTag\<close> (encrypt.go, lines 10 to 94). The loop over the fields is
  \<open>StructEncryptTag_fields\<close>, its body \<open>StructEncryptTag_field\<close>. Reading a field of the
  copy \<open>v\<close> and writing the same field of \<open>output\<close> is one step from the old field to the
  new one, since \<open>output\<close> starts as \<open>v\<close> and every field is visited once.
  Boxing a field into \<^verbatim>\<open>interface{}\<close> for the recursive call and unboxing the result by
  \<^verbatim>\<open>reflect.ValueOf\<close> cancel, so the recursive call takes and returns the struct itself.

  Panics of the reflection API are outcomes: \<^verbatim>\<open>v.Type()\<close> on the zero Value (a nil
  interface or a nil pointer at the root), \<^verbatim>\<open>Interface()\<close> on a Value read through an
  unexported field, and \<^verbatim>\<open>Set\<close>/\<^verbatim>\<open>SetString\<close> on such a Value.
\<close>

function StructEncryptTag :: "cipher \<Rightarrow> val \<Rightarrow> string \<Rightarrow> string \<Rightarrow> string \<Rightarrow> trace \<times> outcome"
  and StructEncryptTag_fields :: "cipher \<Rightarrow> field list \<Rightarrow> string \<Rightarrow> string \<Rightarrow> string \<Rightarrow> trace \<times> field list res"
  and StructEncryptTag_field :: "cipher \<Rightarrow> field \<Rightarrow> string \<Rightarrow> string \<Rightarrow> string \<Rightarrow> trace \<times> field res"
where
  "StructEncryptTag Encrypt input key tagName tagVal =
     (if key = '''' then ([], Return input None)
      else
        (case (if Kind (ValueOf (Copy input)) = KPtr then Elem (ValueOf (Copy input))
               else ValueOf (Copy input)) of
           None \<Rightarrow> ([], Panic)
         | Some (VStruct t fs) \<Rightarrow>
             (case StructEncryptTag_fields Encrypt fs key tagName tagVal of
                (tr, Pan) \<Rightarrow> (tr, Panic)
              | (tr, Err err) \<Rightarrow> (tr, Return input (Some err))
              | (tr, Ok out) \<Rightarrow>
                  (tr, Return (assertT input
                     (if Kind (ValueOf (Copy input)) = KPtr then VPtr (Some (VStruct t out))
                      else VStruct t out)) None))
         | Some _ \<Rightarrow> ([], Return input (Some (Errorf ''input is not a struct'')))))"
| "StructEncryptTag_fields Encrypt [] key tagName tagVal = ([], Ok [])"
| "StructEncryptTag_fields Encrypt (f # fs) key tagName tagVal =
     (case StructEncryptTag_field Encrypt f key tagName tagVal of
        (tr, Pan) \<Rightarrow> (tr, Pan)
      | (tr, Err err) \<Rightarrow> (tr, Err err)
      | (tr, Ok f') \<Rightarrow>
          (case StructEncryptTag_fields Encrypt fs key tagName tagVal of
             (tr', Pan) \<Rightarrow> (tr @ tr', Pan)
           | (tr', Err err) \<Rightarrow> (tr @ tr', Err err)
           | (tr', Ok out) \<Rightarrow> (tr @ tr', Ok (f' # out))))"
| "StructEncryptTag_field Encrypt f key tagName tagVal =
     (if Kind (Some (fval f)) = KStruct \<and> TypeString (Some (fval f)) = ''time.Time''
      then ([], Ok f)
      else if Kind (Some (fval f)) = KPtr \<and> Kind (Elem (Some (fval f))) = KStruct
              \<and> TypeString (Elem (Some (fval f))) = ''time.Time''
      then ([], Ok f)
      else if Tag_Get (ftag f) tagName = tagVal \<and> Kind (Some (fval f)) = KString
      then (case Encrypt (StringOf (Some (fval f))) key of
              Inl err \<Rightarrow> ([StringOf (Some (fval f))], Err err)
            | Inr encryptedValue \<Rightarrow>
                if exported f
                then ([StringOf (Some (fval f))], Ok (Set_field f (VString encryptedValue)))
                else ([StringOf (Some (fval f))], Pan))
      else if Tag_Get (ftag f) tagName = tagVal \<and> Kind (Some (fval f)) = KPtr
              \<and> Kind (Elem (Some (fval f))) = KString
      then (case Encrypt (StringOf (Elem (Some (fval f)))) key of
              Inl err \<Rightarrow> ([StringOf (Elem (Some (fval f)))], Err err)
            | Inr encryptedValue \<Rightarrow>
                if exported f
                then ([StringOf (Elem (Some (fval f)))],
                      Ok (Set_field f (VPtr (Some (VString encryptedValue)))))
                else ([StringOf (Elem (Some (fval f)))], Pan))
      else if Kind (Some (fval f)) = KStruct
      then (if \<not> exported f then ([], Pan)
            else (case StructEncryptTag Encrypt (fval f) key tagName tagVal of
                    (tr, Panic) \<Rightarrow> (tr, Pan)
                  | (tr, Return _ (Some err)) \<Rightarrow> (tr, Err err)
                  | (tr, Return encryptedField None) \<Rightarrow> (tr, Ok (Set_field f encryptedField))))
      else if Kind (Some (fval f)) = KPtr \<and> Kind (Elem (Some (fval f))) = KStruct
      then (if \<not> exported f then ([], Pan)
            else (case Elem (Some (fval f)) of
                    None \<Rightarrow> ([], Pan)
                  | Some e \<Rightarrow>
                      (case StructEncryptTag Encrypt e key tagName tagVal of
                         (tr, Panic) \<Rightarrow> (tr, Pan)
                       | (tr, Return _ (Some err)) \<Rightarrow> (tr, Err err)
                       | (tr, Return encryptedField None) \<Rightarrow>
                           (tr, Ok (Set_field f (VPtr (Some encryptedField)))))))
      else ([], Ok f))"
  by pat_completeness auto
termination
proof (relation "measure (\<lambda>x. case x of
          Inl (_, input, _) \<Rightarrow> size input
        | Inr (Inl (_, fs, _)) \<Rightarrow> size_list size fs
        | Inr (Inr (_, f, _)) \<Rightarrow> size f)", goal_cases)
  case 1
  show ?case by simp
next
  case (2 Encrypt input key tagName tagVal x2 t fs)
  then have "(if Kind (ValueOf input) = KPtr then Elem (ValueOf input) else ValueOf input)
      = Some (VStruct t fs)"
    by (simp split: if_splits)
  then have "size_list size fs < size input" by (rule size_root)
  then show ?case by simp
next
  case 3
  show ?case by simp
next
  case 4
  show ?case by simp
next
  case (5 Encrypt f key tagName tagVal)
  show ?case by (cases f) simp
next
  case (6 Encrypt f key tagName tagVal e)
  then have "size e < size (fval f)" by (simp add: size_Elem)
  then show ?case by (cases f) simp
qed

declare StructEncryptTag.simps [simp del] StructEncryptTag_field.simps [simp del]

section \<open>The slice and the dispatching entry points, typed, encrypt direction\<close>

text \<open>
  \<^verbatim>\<open>StructSliceEncryptTag\<close> (encrypt.go, lines 98 to 136). \<open>StructSliceEncryptTag_items\<close> is the loop
  over the elements of the copy, which assigns each transformed element to its index.
\<close>

fun StructSliceEncryptTag_items :: "cipher \<Rightarrow> val list \<Rightarrow> string \<Rightarrow> string \<Rightarrow> string \<Rightarrow> trace \<times> val list res" where
  "StructSliceEncryptTag_items Encrypt [] key tagName tagVal = ([], Ok [])"
| "StructSliceEncryptTag_items Encrypt (item # items) key tagName tagVal =
     (if Kind (Some item) = KStruct
      then (case StructEncryptTag Encrypt item key tagName tagVal of
              (tr, Panic) \<Rightarrow> (tr, Pan)
            | (tr, Return _ (Some err)) \<Rightarrow> (tr, Err err)
            | (tr, Return encryptedItem None) \<Rightarrow>
                (case StructSliceEncryptTag_items Encrypt items key tagName tagVal of
                   (tr', Pan) \<Rightarrow> (tr @ tr', Pan)
                 | (tr', Err err) \<Rightarrow> (tr @ tr', Err err)
                 | (tr', Ok out) \<Rightarrow> (tr @ tr', Ok (encryptedItem # out))))
      else if Kind (Some item) = KPtr \<and> Kind (Elem (Some item)) = KStruct
      then (case StructEncryptTag Encrypt item key tagName tagVal of
              (tr, Panic) \<Rightarrow> (tr, Pan)
            | (tr, Return _ (Some err)) \<Rightarrow> (tr, Err err)
            | (tr, Return encryptedItem None) \<Rightarrow>
                (case StructSliceEncryptTag_items Encrypt items key tagName tagVal of
                   (tr', Pan) \<Rightarrow> (tr @ tr', Pan)
                 | (tr', Err err) \<Rightarrow> (tr @ tr', Err err)
                 | (tr', Ok out) \<Rightarrow> (tr @ tr', Ok (encryptedItem # out))))
      else (case StructSliceEncryptTag_items Encrypt items key tagName tagVal of
              (tr', Pan) \<Rightarrow> (tr', Pan)
            | (tr', Err err) \<Rightarrow> (tr', Err err)
            | (tr', Ok out) \<Rightarrow> (tr', Ok (item # out))))"

definition StructSliceEncryptTag :: "cipher \<Rightarrow> val \<Rightarrow> string \<Rightarrow> string \<Rightarrow> string \<Rightarrow> trace \<times> outcome" where
  "StructSliceEncryptTag Encrypt input key tagName tagVal =
     (if key = '''' then ([], Return input None)
      else
        (case ValueOf (Copy input) of
           Some (VSlice items) \<Rightarrow>
             (case StructSliceEncryptTag_items Encrypt items key tagName tagVal of
                (tr, Pan) \<Rightarrow> (tr, Panic)
              | (tr, Err err) \<Rightarrow> (tr, Return input (Some err))
              | (tr, Ok out) \<Rightarrow> (tr, Return (assertT input (VSlice out)) None))
         | _ \<Rightarrow> ([], Return input (Some (Errorf ''input is not a slice'')))))"

text \<open>
  \<^verbatim>\<open>InterfaceEncryptTag\<close> (encrypt.go, lines 140 to 175) dispatches on the kind of its argument
  and passes every other kind through with no error.
\<close>

definition InterfaceEncryptTag :: "cipher \<Rightarrow> val \<Rightarrow> string \<Rightarrow> string \<Rightarrow> string \<Rightarrow> trace \<times> outcome" where
  "InterfaceEncryptTag Encrypt input key tagName tagVal =
     (if key = '''' then ([], Return input None)
      else
        (case ValueOf input of
           None \<Rightarrow> ([], Return input None)
         | Some v \<Rightarrow>
             if Kind (Some v) = KStruct
             then (case StructEncryptTag Encrypt v key tagName tagVal of
                     (tr, Panic) \<Rightarrow> (tr, Panic)
                   | (tr, Return _ (Some err)) \<Rightarrow> (tr, Return input (Some err))
                   | (tr, Return result None) \<Rightarrow> (tr, Return (assertT input result) None))
             else if Kind (Some v) = KPtr \<and> Kind (Elem (Some v)) = KStruct
             then (case StructEncryptTag Encrypt v key tagName tagVal of
                     (tr, Panic) \<Rightarrow> (tr, Panic)
                   | (tr, Return _ (Some err)) \<Rightarrow> (tr, Return input (Some err))
                   | (tr, Return result None) \<Rightarrow> (tr, Return (assertT input result) None))
             else if Kind (Some v) = KSlice
             then (case StructSliceEncryptTag Encrypt v key tagName tagVal of
                     (tr, Panic) \<Rightarrow> (tr, Panic)
                   | (tr, Return _ (Some err)) \<Rightarrow> (tr, Return input (Some err))
                   | (tr, Return result None) \<Rightarrow> (tr, Return (assertT input result) None))
             else ([], Return input None)))"

section \<open>The typed entry points, decrypt direction\<close>

text \<open>
  \<^verbatim>\<open>StructDecryptTag\<close> (encrypt.go, lines 179 to 263): the same loop, with \<^verbatim>\<open>Decrypt\<close> as
  the leaf and itself as the recursive call.
\<close>

function StructDecryptTag :: "cipher \<Rightarrow> val \<Rightarrow> string \<Rightarrow> string \<Rightarrow> string \<Rightarrow> trace \<times> outcome"
  and StructDecryptTag_fields :: "cipher \<Rightarrow> field list \<Rightarrow> string \<Rightarrow> string \<Rightarrow> string \<Rightarrow> trace \<times> field list res"
  and StructDecryptTag_field :: "cipher \<Rightarrow> field \<Rightarrow> string \<Rightarrow> string \<Rightarrow> string \<Rightarrow> trace \<times> field res"
where
  "StructDecryptTag Decrypt input key tagName tagVal =
     (if key = '''' then ([], Return input None)
      else
        (case (if Kind (ValueOf (Copy input)) = KPtr then Elem (ValueOf (Copy input))
               else ValueOf (Copy input)) of
           None \<Rightarrow> ([], Panic)
         | Some (VStruct t fs) \<Rightarrow>
             (case StructDecryptTag_fields Decrypt fs key tagName tagVal of
                (tr, Pan) \<Rightarrow> (tr, Panic)
              | (tr, Err err) \<Rightarrow> (tr, Return input (Some err))
              | (tr, Ok out) \<Rightarrow>
                  (tr, Return (assertT input
                     (if Kind (ValueOf (Copy input)) = KPtr then VPtr (Some (VStruct t out))
                      else VStruct t out)) None))
         | Some _ \<Rightarrow> ([], Return input (Some (Errorf ''input is not a struct'')))))"
| "StructDecryptTag_fields Decrypt [] key tagName tagVal = ([], Ok [])"
| "StructDecryptTag_fields Decrypt (f # fs) key tagName tagVal =
     (case StructDecryptTag_field Decrypt f key tagName tagVal of
        (tr, Pan) \<Rightarrow> (tr, Pan)
      | (tr, Err err) \<Rightarrow> (tr, Err err)
      | (tr, Ok f') \<Rightarrow>
          (case StructDecryptTag_fields Decrypt fs key tagName tagVal of
             (tr', Pan) \<Rightarrow> (tr @ tr', Pan)
           | (tr', Err err) \<Rightarrow> (tr @ tr', Err err)
           | (tr', Ok out) \<Rightarrow> (tr @ tr', Ok (f' # out))))"
| "StructDecryptTag_field Decrypt f key tagName tagVal =
     (if Kind (Some (fval f)) = KStruct \<and> TypeString (Some (fval f)) = ''time.Time''
      then ([], Ok f)
      else if Kind (Some (fval f)) = KPtr \<and> Kind (Elem (Some (fval f))) = KStruct
              \<and> TypeString (Elem (Some (fval f))) = ''time.Time''
      then ([], Ok f)
      else if Tag_Get (ftag f) tagName = tagVal \<and> Kind (Some (fval f)) = KString
      then (case Decrypt (StringOf (Some (fval f))) key of
              Inl err \<Rightarrow> ([StringOf (Some (fval f))], Err err)
            | Inr decryptedValue \<Rightarrow>
                if exported f
                then ([StringOf (Some (fval f))], Ok (Set_field f (VString decryptedValue)))
                else ([StringOf (Some (fval f))], Pan))
      else if Tag_Get (ftag f) tagName = tagVal \<and> Kind (Some (fval f)) = KPtr
              \<and> Kind (Elem (Some (fval f))) = KString
      then (case Decrypt (StringOf (Elem (Some (fval f)))) key of
              Inl err \<Rightarrow> ([StringOf (Elem (Some (fval f)))], Err err)
            | Inr decryptedValue \<Rightarrow>
                if exported f
                then ([StringOf (Elem (Some (fval f)))],
                      Ok (Set_field f (VPtr (Some (VString decryptedValue)))))
                else ([StringOf (Elem (Some (fval f)))], Pan))
      else if Kind (Some (fval f)) = KStruct
      then (if \<not> exported f then ([], Pan)
            else (case StructDecryptTag Decrypt (fval f) key tagName tagVal of
                    (tr, Panic) \<Rightarrow> (tr, Pan)
                  | (tr, Return _ (Some err)) \<Rightarrow> (tr, Err err)
                  | (tr, Return decryptedField None) \<Rightarrow> (tr, Ok (Set_field f decryptedField))))
      else if Kind (Some (fval f)) = KPtr \<and> Kind (Elem (Some (fval f))) = KStruct
      then (if \<not> exported f then ([], Pan)
            else (case Elem (Some (fval f)) of
                    None \<Rightarrow> ([], Pan)
                  | Some e \<Rightarrow>
                      (case StructDecryptTag Decrypt e key tagName tagVal of
                         (tr, Panic) \<Rightarrow> (tr, Pan)
                       | (tr, Return _ (Some err)) \<Rightarrow> (tr, Err err)
                       | (tr, Return decryptedField None) \<Rightarrow>
                           (tr, Ok (Set_field f (VPtr (Some decryptedField)))))))
      else ([], Ok f))"
  by pat_completeness auto
termination
proof (relation "measure (\<lambda>x. case x of
          Inl (_, input, _) \<Rightarrow> size input
        | Inr (Inl (_, fs, _)) \<Rightarrow> size_list size fs
        | Inr (Inr (_, f, _)) \<Rightarrow> size f)", goal_cases)
  case 1
  show ?case by simp
next
  case (2 Decrypt input key tagName tagVal x2 t fs)
  then have "(if Kind (ValueOf input) = KPtr then Elem (ValueOf input) else ValueOf input)
      = Some (VStruct t fs)"
    by (simp split: if_splits)
  then have "size_list size fs < size input" by (rule size_root)
  then show ?case by simp
next
  case 3
  show ?case by simp
next
  case 4
  show ?case by simp
next
  case (5 Decrypt f key tagName tagVal)
  show ?case by (cases f) simp
next
  case (6 Decrypt f key tagName tagVal e)
  then have "size e < size (fval f)" by (simp add: size_Elem)
  then show ?case by (cases f) simp
qed

declare StructDecryptTag.simps [simp del] StructDecryptTag_field.simps [simp del]

text \<open>
  \<^verbatim>\<open>StructSliceDecryptTag\<close> (encrypt.go, lines 267 to 305). \<open>StructSliceDecryptTag_items\<close> is the loop
  over the elements of the copy, which assigns each transformed element to its index.
\<close>

fun StructSliceDecryptTag_items :: "cipher \<Rightarrow> val list \<Rightarrow> string \<Rightarrow> string \<Rightarrow> string \<Rightarrow> trace \<times> val list res" where
  "StructSliceDecryptTag_items Decrypt [] key tagName tagVal = ([], Ok [])"
| "StructSliceDecryptTag_items Decrypt (item # items) key tagName tagVal =
     (if Kind (Some item) = KStruct
      then (case StructDecryptTag Decrypt item key tagName tagVal of
              (tr, Panic) \<Rightarrow> (tr, Pan)
            | (tr, Return _ (Some err)) \<Rightarrow> (tr, Err err)
            | (tr, Return decryptedItem None) \<Rightarrow>
                (case StructSliceDecryptTag_items Decrypt items key tagName tagVal of
                   (tr', Pan) \<Rightarrow> (tr @ tr', Pan)
                 | (tr', Err err) \<Rightarrow> (tr @ tr', Err err)
                 | (tr', Ok out) \<Rightarrow> (tr @ tr', Ok (decryptedItem # out))))
      else if Kind (Some item) = KPtr \<and> Kind (Elem (Some item)) = KStruct
      then (case StructDecryptTag Decrypt item key tagName tagVal of
              (tr, Panic) \<Rightarrow> (tr, Pan)
            | (tr, Return _ (Some err)) \<Rightarrow> (tr, Err err)
            | (tr, Return decryptedItem None) \<Rightarrow>
                (case StructSliceDecryptTag_items Decrypt items key tagName tagVal of
                   (tr', Pan) \<Rightarrow> (tr @ tr', Pan)
                 | (tr', Err err) \<Rightarrow> (tr @ tr', Err err)
                 | (tr', Ok out) \<Rightarrow> (tr @ tr', Ok (decryptedItem # out))))
      else (case StructSliceDecryptTag_items Decrypt items key tagName tagVal of
              (tr', Pan) \<Rightarrow> (tr', Pan)
            | (tr', Err err) \<Rightarrow> (tr', Err err)
            | (tr', Ok out) \<Rightarrow> (tr', Ok (item # out))))"

definition StructSliceDecryptTag :: "cipher \<Rightarrow> val \<Rightarrow> string \<Rightarrow> string \<Rightarrow> string \<Rightarrow> trace \<times> outcome" where
  "StructSliceDecryptTag Decrypt input key tagName tagVal =
     (if key = '''' then ([], Return input None)
      else
        (case ValueOf (Copy input) of
           Some (VSlice items) \<Rightarrow>
             (case StructSliceDecryptTag_items Decrypt items key tagName tagVal of
                (tr, Pan) \<Rightarrow> (tr, Panic)
              | (tr, Err err) \<Rightarrow> (tr, Return input (Some err))
              | (tr, Ok out) \<Rightarrow> (tr, Return (assertT input (VSlice out)) None))
         | _ \<Rightarrow> ([], Return input (Some (Errorf ''input is not a slice'')))))"

text \<open>
  \<^verbatim>\<open>InterfaceDecryptTag\<close> (encrypt.go, lines 309 to 344) dispatches on the kind of its argument
  and passes every other kind through with no error.
\<close>

definition InterfaceDecryptTag :: "cipher \<Rightarrow> val \<Rightarrow> string \<Rightarrow> string \<Rightarrow> string \<Rightarrow> trace \<times> outcome" where
  "InterfaceDecryptTag Decrypt input key tagName tagVal =
     (if key = '''' then ([], Return input None)
      else
        (case ValueOf input of
           None \<Rightarrow> ([], Return input None)
         | Some v \<Rightarrow>
             if Kind (Some v) = KStruct
             then (case StructDecryptTag Decrypt v key tagName tagVal of
                     (tr, Panic) \<Rightarrow> (tr, Panic)
                   | (tr, Return _ (Some err)) \<Rightarrow> (tr, Return input (Some err))
                   | (tr, Return result None) \<Rightarrow> (tr, Return (assertT input result) None))
             else if Kind (Some v) = KPtr \<and> Kind (Elem (Some v)) = KStruct
             then (case StructDecryptTag Decrypt v key tagName tagVal of
                     (tr, Panic) \<Rightarrow> (tr, Panic)
                   | (tr, Return _ (Some err)) \<Rightarrow> (tr, Return input (Some err))
                   | (tr, Return result None) \<Rightarrow> (tr, Return (assertT input result) None))
             else if Kind (Some v) = KSlice
             then (case StructSliceDecryptTag Decrypt v key tagName tagVal of
                     (tr, Panic) \<Rightarrow> (tr, Panic)
                   | (tr, Return _ (Some err)) \<Rightarrow> (tr, Return input (Some err))
                   | (tr, Return result None) \<Rightarrow> (tr, Return (assertT input result) None))
             else ([], Return input None)))"

section \<open>The untyped entry points, encrypt direction\<close>

text \<open>
  \<^verbatim>\<open>StructEncryptTagInterface\<close> (encrypt.go, lines 348 to 432) takes and returns
  \<^verbatim>\<open>interface{}\<close>: the result is an interface value holding the output.
\<close>

function StructEncryptTagInterface :: "cipher \<Rightarrow> val \<Rightarrow> string \<Rightarrow> string \<Rightarrow> string \<Rightarrow> trace \<times> outcome"
  and StructEncryptTagInterface_fields :: "cipher \<Rightarrow> field list \<Rightarrow> string \<Rightarrow> string \<Rightarrow> string \<Rightarrow> trace \<times> field list res"
  and StructEncryptTagInterface_field :: "cipher \<Rightarrow> field \<Rightarrow> string \<Rightarrow> string \<Rightarrow> string \<Rightarrow> trace \<times> field res"
where
  "StructEncryptTagInterface Encrypt input key tagName tagVal =
     (if key = '''' then ([], Return input None)
      else
        (case (if Kind (ValueOf (Copy input)) = KPtr then Elem (ValueOf (Copy input))
               else ValueOf (Copy input)) of
           None \<Rightarrow> ([], Panic)
         | Some (VStruct t fs) \<Rightarrow>
             (case StructEncryptTagInterface_fields Encrypt fs key tagName tagVal of
                (tr, Pan) \<Rightarrow> (tr, Panic)
              | (tr, Err err) \<Rightarrow> (tr, Return input (Some err))
              | (tr, Ok out) \<Rightarrow>
                  (tr, Return (assertT input
                     (if Kind (ValueOf (Copy input)) = KPtr then VPtr (Some (VStruct t out))
                      else VStruct t out)) None))
         | Some _ \<Rightarrow> ([], Return input (Some (Errorf ''input is not a struct'')))))"
| "StructEncryptTagInterface_fields Encrypt [] key tagName tagVal = ([], Ok [])"
| "StructEncryptTagInterface_fields Encrypt (f # fs) key tagName tagVal =
     (case StructEncryptTagInterface_field Encrypt f key tagName tagVal of
        (tr, Pan) \<Rightarrow> (tr, Pan)
      | (tr, Err err) \<Rightarrow> (tr, Err err)
      | (tr, Ok f') \<Rightarrow>
          (case StructEncryptTagInterface_fields Encrypt fs key tagName tagVal of
             (tr', Pan) \<Rightarrow> (tr @ tr', Pan)
           | (tr', Err err) \<Rightarrow> (tr @ tr', Err err)
           | (tr', Ok out) \<Rightarrow> (tr @ tr', Ok (f' # out))))"
| "StructEncryptTagInterface_field Encrypt f key tagName tagVal =
     (if Kind (Some (fval f)) = KStruct \<and> TypeString (Some (fval f)) = ''time.Time''
      then ([], Ok f)
      else if Kind (Some (fval f)) = KPtr \<and> Kind (Elem (Some (fval f))) = KStruct
              \<and> TypeString (Elem (Some (fval f))) = ''time.Time''
      then ([], Ok f)
      else if Tag_Get (ftag f) tagName = tagVal \<and> Kind (Some (fval f)) = KString
      then (case Encrypt (StringOf (Some (fval f))) key of
              Inl err \<Rightarrow> ([StringOf (Some (fval f))], Err err)
            | Inr encryptedValue \<Rightarrow>
                if exported f
                then ([StringOf (Some (fval f))], Ok (Set_field f (VString encryptedValue)))
                else ([StringOf (Some (fval f))], Pan))
      else if Tag_Get (ftag f) tagName = tagVal \<and> Kind (Some (fval f)) = KPtr
              \<and> Kind (Elem (Some (fval f))) = KString
      then (case Encrypt (StringOf (Elem (Some (fval f)))) key of
              Inl err \<Rightarrow> ([StringOf (Elem (Some (fval f)))], Err err)
            | Inr encryptedValue \<Rightarrow>
                if exported f
                then ([StringOf (Elem (Some (fval f)))],
                      Ok (Set_field f (VPtr (Some (VString encryptedValue)))))
                else ([StringOf (Elem (Some (fval f)))], Pan))
      else if Kind (Some (fval f)) = KStruct
      then (if \<not> exported f then ([], Pan)
            else (case StructEncryptTagInterface Encrypt (fval f) key tagName tagVal of
                    (tr, Panic) \<Rightarrow> (tr, Pan)
                  | (tr, Return _ (Some err)) \<Rightarrow> (tr, Err err)
                  | (tr, Return encryptedField None) \<Rightarrow> (tr, Ok (Set_field f encryptedField))))
      else if Kind (Some (fval f)) = KPtr \<and> Kind (Elem (Some (fval f))) = KStruct
      then (if \<not> exported f then ([], Pan)
            else (case Elem (Some (fval f)) of
                    None \<Rightarrow> ([], Pan)
                  | Some e \<Rightarrow>
                      (case StructEncryptTagInterface Encrypt e key tagName tagVal of
                         (tr, Panic) \<Rightarrow> (tr, Pan)
                       | (tr, Return _ (Some err)) \<Rightarrow> (tr, Err err)
                       | (tr, Return encryptedField None) \<Rightarrow>
                           (tr, Ok (Set_field f (VPtr (Some encryptedField)))))))
      else ([], Ok f))"
  by pat_completeness auto
termination
proof (relation "measure (\<lambda>x. case x of
          Inl (_, input, _) \<Rightarrow> size input
        | Inr (Inl (_, fs, _)) \<Rightarrow> size_list size fs
        | Inr (Inr (_, f, _)) \<Rightarrow> size f)", goal_cases)
  case 1
  show ?case by simp
next
  case (2 Encrypt input key tagName tagVal x2 t fs)
  then have "(if Kind (ValueOf input) = KPtr then Elem (ValueOf input) else ValueOf input)
      = Some (VStruct t fs)"
    by (simp split: if_splits)
  then have "size_list size fs < size input" by (rule size_root)
  then show ?case by simp
next
  case 3
  show ?case by simp
next
  case 4
  show ?case by simp
next
  case (5 Encrypt f key tagName tagVal)
  show ?case by (cases f) simp
next
  case (6 Encrypt f key tagName tagVal e)
  then have "size e < size (fval f)" by (simp add: size_Elem)
  then show ?case by (cases f) simp
qed

declare StructEncryptTagInterface.simps [simp del] StructEncryptTagInterface_field.simps [simp del]

text \<open>The loop of \<^verbatim>\<open>StructSliceEncryptTagInterface\<close> calls the typed \<^verbatim>\<open>StructEncryptTag\<close> on each element.\<close>

text \<open>
  \<^verbatim>\<open>StructSliceEncryptTagInterface\<close> (encrypt.go, lines 436 to 474). \<open>StructSliceEncryptTagInterface_items\<close> is the loop
  over the elements of the copy, which assigns each transformed element to its index.
\<close>

fun StructSliceEncryptTagInterface_items :: "cipher \<Rightarrow> val list \<Rightarrow> string \<Rightarrow> string \<Rightarrow> string \<Rightarrow> trace \<times> val list res" where
  "StructSliceEncryptTagInterface_items Encrypt [] key tagName tagVal = ([], Ok [])"
| "StructSliceEncryptTagInterface_items Encrypt (item # items) key tagName tagVal =
     (if Kind (Some item) = KStruct
      then (case StructEncryptTag Encrypt item key tagName tagVal of
              (tr, Panic) \<Rightarrow> (tr, Pan)
            | (tr, Return _ (Some err)) \<Rightarrow> (tr, Err err)
            | (tr, Return encryptedItem None) \<Rightarrow>
                (case StructSliceEncryptTagInterface_items Encrypt items key tagName tagVal of
                   (tr', Pan) \<Rightarrow> (tr @ tr', Pan)
                 | (tr', Err err) \<Rightarrow> (tr @ tr', Err err)
                 | (tr', Ok out) \<Rightarrow> (tr @ tr', Ok (encryptedItem # out))))
      else if Kind (Some item) = KPtr \<and> Kind (Elem (Some item)) = KStruct
      then (case StructEncryptTag Encrypt item key tagName tagVal of
              (tr, Panic) \<Rightarrow> (tr, Pan)
            | (tr, Return _ (Some err)) \<Rightarrow> (tr, Err err)
            | (tr, Return encryptedItem None) \<Rightarrow>
                (case StructSliceEncryptTagInterface_items Encrypt items key tagName tagVal of
                   (tr', Pan) \<Rightarrow> (tr @ tr', Pan)
                 | (tr', Err err) \<Rightarrow> (tr @ tr', Err err)
                 | (tr', Ok out) \<Rightarrow> (tr @ tr', Ok (encryptedItem # out))))
      else (case StructSliceEncryptTagInterface_items Encrypt items key tagName tagVal of
              (tr', Pan) \<Rightarrow> (tr', Pan)
            | (tr', Err err) \<Rightarrow> (tr', Err err)
            | (tr', Ok out) \<Rightarrow> (tr', Ok (item # out))))"

definition StructSliceEncryptTagInterface :: "cipher \<Rightarrow> val \<Rightarrow> string \<Rightarrow> string \<Rightarrow> string \<Rightarrow> trace \<times> outcome" where
  "StructSliceEncryptTagInterface Encrypt input key tagName tagVal =
     (if key = '''' then ([], Return input None)
      else
        (case ValueOf (Copy input) of
           Some (VSlice items) \<Rightarrow>
             (case StructSliceEncryptTagInterface_items Encrypt items key tagName tagVal of
                (tr, Pan) \<Rightarrow> (tr, Panic)
              | (tr, Err err) \<Rightarrow> (tr, Return input (Some err))
              | (tr, Ok out) \<Rightarrow> (tr, Return (assertT input (VSlice out)) None))
         | _ \<Rightarrow> ([], Return input (Some (Errorf ''input is not a slice'')))))"

text \<open>
  \<^verbatim>\<open>InterfaceEncryptTagInterface\<close> (encrypt.go, lines 478 to 513) dispatches on the kind of its argument
  and passes every other kind through with no error.
\<close>

definition InterfaceEncryptTagInterface :: "cipher \<Rightarrow> val \<Rightarrow> string \<Rightarrow> string \<Rightarrow> string \<Rightarrow> trace \<times> outcome" where
  "InterfaceEncryptTagInterface Encrypt input key tagName tagVal =
     (if key = '''' then ([], Return input None)
      else
        (case ValueOf input of
           None \<Rightarrow> ([], Return input None)
         | Some v \<Rightarrow>
             if Kind (Some v) = KStruct
             then (case StructEncryptTagInterface Encrypt v key tagName tagVal of
                     (tr, Panic) \<Rightarrow> (tr, Panic)
                   | (tr, Return _ (Some err)) \<Rightarrow> (tr, Return input (Some err))
                   | (tr, Return result None) \<Rightarrow> (tr, Return (assertT input result) None))
             else if Kind (Some v) = KPtr \<and> Kind (Elem (Some v)) = KStruct
             then (case StructEncryptTagInterface Encrypt v key tagName tagVal of
                     (tr, Panic) \<Rightarrow> (tr, Panic)
                   | (tr, Return _ (Some err)) \<Rightarrow> (tr, Return input (Some err))
                   | (tr, Return result None) \<Rightarrow> (tr, Return (assertT input result) None))
             else if Kind (Some v) = KSlice
             then (case StructSliceEncryptTagInterface Encrypt v key tagName tagVal of
                     (tr, Panic) \<Rightarrow> (tr, Panic)
                   | (tr, Return _ (Some err)) \<Rightarrow> (tr, Return input (Some err))
                   | (tr, Return result None) \<Rightarrow> (tr, Return (assertT input result) None))
             else ([], Return input None)))"

section \<open>The process-wide key\<close>

text \<open>
  \<^verbatim>\<open>keyEncrypt\<close> (logger.go, line 22) is a package variable of type \<^verbatim>\<open>*string\<close>, nil
  when the process starts. \<^verbatim>\<open>SetKeyEncrypt\<close> (lines 54 to 58) stores the address of its
  own parameter, which nothing else can write.
\<close>

record globals =
  keyEncrypt :: "string option"

definition globals_init :: globals where
  "globals_init = \<lparr>keyEncrypt = None\<rparr>"

definition SetKeyEncrypt :: "string \<Rightarrow> globals \<Rightarrow> globals" where
  "SetKeyEncrypt key g = (if keyEncrypt g = None then g\<lparr>keyEncrypt := Some key\<rparr> else g)"

section \<open>The untyped entry points, decrypt direction\<close>




section \<open>Sample ciphers for concrete instances\<close>

definition toy_Encrypt :: cipher where
  "toy_Encrypt s k = Inr (k @ s)"

definition toy_Decrypt :: cipher where
  "toy_Decrypt c k = (if take (length k) c = k then Inr (drop (length k) c)
                      else Inl (Errorf ''cipher: message authentication failed''))"

definition failing_Encrypt :: cipher where
  "failing_Encrypt s k = (if s = ''bob'' then Inl (Errorf ''cipher: invalid key'') else Inr (k @ s))"

section \<open>The three copies of the traversal compute the same function\<close>

lemma StructDecryptTag_eq:
  "StructDecryptTag c x k tn tv = StructEncryptTag c x k tn tv"
  "StructDecryptTag_fields c fs k tn tv = StructEncryptTag_fields c fs k tn tv"
  "StructDecryptTag_field c f k tn tv = StructEncryptTag_field c f k tn tv"
proof (induction c x k tn tv and c fs k tn tv and c f k tn tv
    rule: StructEncryptTag_StructEncryptTag_fields_StructEncryptTag_field.induct)
  case (1 Encrypt input key tagName tagVal)
  then show ?case
    by (simp add: StructEncryptTag.simps StructDecryptTag.simps
        split: option.splits val.splits cong: if_cong)
next
  case (2 Encrypt key tagName tagVal)
  show ?case by simp
next
  case (3 Encrypt f fs key tagName tagVal)
  then show ?case by (simp split: prod.splits res.splits)
next
  case (4 Encrypt f key tagName tagVal)
  then show ?case
    by (simp add: StructEncryptTag_field.simps StructDecryptTag_field.simps split: option.splits)
qed

lemma StructEncryptTagInterface_eq:
  "StructEncryptTagInterface c x k tn tv = StructEncryptTag c x k tn tv"
  "StructEncryptTagInterface_fields c fs k tn tv = StructEncryptTag_fields c fs k tn tv"
  "StructEncryptTagInterface_field c f k tn tv = StructEncryptTag_field c f k tn tv"
proof (induction c x k tn tv and c fs k tn tv and c f k tn tv
    rule: StructEncryptTag_StructEncryptTag_fields_StructEncryptTag_field.induct)
  case (1 Encrypt input key tagName tagVal)
  then show ?case
    by (simp add: StructEncryptTag.simps StructEncryptTagInterface.simps
        split: option.splits val.splits cong: if_cong)
next
  case (2 Encrypt key tagName tagVal)
  show ?case by simp
next
  case (3 Encrypt f fs key tagName tagVal)
  then show ?case by (simp split: prod.splits res.splits)
next
  case (4 Encrypt f key tagName tagVal)
  then show ?case
    by (simp add: StructEncryptTag_field.simps StructEncryptTagInterface_field.simps
        split: option.splits)
qed

lemma StructDecryptTag_fun_eq: "StructDecryptTag = StructEncryptTag"
  by (intro ext) (rule StructDecryptTag_eq)

lemma StructEncryptTagInterface_fun_eq: "StructEncryptTagInterface = StructEncryptTag"
  by (intro ext) (rule StructEncryptTagInterface_eq)

lemma StructSliceDecryptTag_items_eq:
  "StructSliceDecryptTag_items c xs k tn tv = StructSliceEncryptTag_items c xs k tn tv"
  by (induction xs) (simp_all add: StructDecryptTag_eq)

lemma StructSliceEncryptTagInterface_items_eq:
  "StructSliceEncryptTagInterface_items c xs k tn tv = StructSliceEncryptTag_items c xs k tn tv"
  by (induction xs) simp_all

lemma StructSliceDecryptTag_items_fun_eq:
  "StructSliceDecryptTag_items = StructSliceEncryptTag_items"
  by (intro ext) (rule StructSliceDecryptTag_items_eq)

lemma StructSliceEncryptTagInterface_items_fun_eq:
  "StructSliceEncryptTagInterface_items = StructSliceEncryptTag_items"
  by (intro ext) (rule StructSliceEncryptTagInterface_items_eq)

lemma StructSliceDecryptTag_eq:
  "StructSliceDecryptTag c x k tn tv = StructSliceEncryptTag c x k tn tv"
  unfolding StructSliceDecryptTag_def StructSliceEncryptTag_def StructSliceDecryptTag_items_fun_eq
  by (rule refl)

lemma StructSliceEncryptTagInterface_eq:
  "StructSliceEncryptTagInterface c x k tn tv = StructSliceEncryptTag c x k tn tv"
  unfolding StructSliceEncryptTagInterface_def StructSliceEncryptTag_def
    StructSliceEncryptTagInterface_items_fun_eq
  by (rule refl)

lemma StructSliceDecryptTag_fun_eq: "StructSliceDecryptTag = StructSliceEncryptTag"
  by (intro ext) (rule StructSliceDecryptTag_eq)

lemma StructSliceEncryptTagInterface_fun_eq:
  "StructSliceEncryptTagInterface = StructSliceEncryptTag"
  by (intro ext) (rule StructSliceEncryptTagInterface_eq)

lemma InterfaceDecryptTag_eq:
  "InterfaceDecryptTag c x k tn tv = InterfaceEncryptTag c x k tn tv"
  unfolding InterfaceDecryptTag_def InterfaceEncryptTag_def StructDecryptTag_fun_eq
    StructSliceDecryptTag_fun_eq
  by (rule refl)

lemma InterfaceEncryptTagInterface_eq:
  "InterfaceEncryptTagInterface c x k tn tv = InterfaceEncryptTag c x k tn tv"
  unfolding InterfaceEncryptTagInterface_def InterfaceEncryptTag_def
    StructEncryptTagInterface_fun_eq StructSliceEncryptTagInterface_fun_eq
  by (rule refl)

section \<open>Typed and untyped entry points\<close>


section \<open>The empty key\<close>

text \<open>
  C4. For every input of any shape, every tag name and tag value and every cipher, each
  entry point called with the empty key returns the input itself with no error, and the
  cipher is not called: the trace of cipher calls is empty. The return precedes the call of
  Copy in each function.
\<close>

theorem empty_key_noop:
  "StructEncryptTag Encrypt x '''' tagName tagVal = ([], Return x None)
   \<and> StructSliceEncryptTag Encrypt x '''' tagName tagVal = ([], Return x None)
   \<and> InterfaceEncryptTag Encrypt x '''' tagName tagVal = ([], Return x None)
   \<and> StructDecryptTag Decrypt x '''' tagName tagVal = ([], Return x None)
   \<and> StructSliceDecryptTag Decrypt x '''' tagName tagVal = ([], Return x None)
   \<and> InterfaceDecryptTag Decrypt x '''' tagName tagVal = ([], Return x None)
   \<and> StructEncryptTagInterface Encrypt x '''' tagName tagVal = ([], Return x None)
   \<and> StructSliceEncryptTagInterface Encrypt x '''' tagName tagVal = ([], Return x None)
   \<and> InterfaceEncryptTagInterface Encrypt x '''' tagName tagVal = ([], Return x None)"
  by (simp add: StructEncryptTag.simps StructDecryptTag.simps StructEncryptTagInterface.simps
      StructSliceEncryptTag_def StructSliceDecryptTag_def StructSliceEncryptTagInterface_def
      InterfaceEncryptTag_def InterfaceDecryptTag_def InterfaceEncryptTagInterface_def)

section \<open>First write wins\<close>

lemma SetKeyEncrypt_set: "keyEncrypt g \<noteq> None \<Longrightarrow> SetKeyEncrypt k g = g"
  by (simp add: SetKeyEncrypt_def)

lemma fold_SetKeyEncrypt_set: "keyEncrypt g \<noteq> None \<Longrightarrow> fold SetKeyEncrypt ks g = g"
  by (induction ks) (simp_all add: SetKeyEncrypt_set)

text \<open>
  C9. Starting from the initial state, in which the key is unset, after any sequence of calls
  of SetKeyEncrypt the key is the argument of the first call, the empty string included; the
  calls after the first change nothing, and neither does one more call.
\<close>

theorem first_write_wins:
  "keyEncrypt (fold SetKeyEncrypt (k # ks) globals_init) = Some k
   \<and> fold SetKeyEncrypt (k # ks) globals_init = SetKeyEncrypt k globals_init
   \<and> SetKeyEncrypt k' (fold SetKeyEncrypt (k # ks) globals_init)
       = fold SetKeyEncrypt (k # ks) globals_init"
proof -
  have set: "keyEncrypt (SetKeyEncrypt k globals_init) = Some k"
    by (simp add: SetKeyEncrypt_def globals_init_def)
  then have stay: "fold SetKeyEncrypt ks (SetKeyEncrypt k globals_init) = SetKeyEncrypt k globals_init"
    by (simp add: fold_SetKeyEncrypt_set)
  from set stay show ?thesis by (simp add: SetKeyEncrypt_set)
qed

theorem first_write_wins_witness:
  "keyEncrypt (fold SetKeyEncrypt ['''', ''deadbeef'', ''cafe''] globals_init) = Some ''''
   \<and> keyEncrypt (fold SetKeyEncrypt [''deadbeef'', '''', ''cafe''] globals_init) = Some ''deadbeef''"
  using first_write_wins [of "''''" "[''deadbeef'', ''cafe'']"]
    first_write_wins [of "''deadbeef''" "['''', ''cafe'']"]
  by blast

definition entry_points :: "(cipher \<Rightarrow> val \<Rightarrow> string \<Rightarrow> string \<Rightarrow> string \<Rightarrow> trace \<times> outcome) list" where
  "entry_points =
     [StructEncryptTag, StructSliceEncryptTag, InterfaceEncryptTag,
      StructDecryptTag, StructSliceDecryptTag, InterfaceDecryptTag,
      StructEncryptTagInterface, StructSliceEncryptTagInterface, InterfaceEncryptTagInterface]"

lemma InterfaceDecryptTag_fun_eq: "InterfaceDecryptTag = InterfaceEncryptTag"
  by (intro ext) (rule InterfaceDecryptTag_eq)

lemma InterfaceEncryptTagInterface_fun_eq: "InterfaceEncryptTagInterface = InterfaceEncryptTag"
  by (intro ext) (rule InterfaceEncryptTagInterface_eq)

lemma StructEncryptTag_root:
  assumes "key \<noteq> ''''"
    and "(if Kind (ValueOf x) = KPtr then Elem (ValueOf x) else ValueOf x) = r"
  shows "StructEncryptTag c x key tn tv =
     (case r of
        None \<Rightarrow> ([], Panic)
      | Some (VStruct t fs) \<Rightarrow>
          (case StructEncryptTag_fields c fs key tn tv of
             (tr, Pan) \<Rightarrow> (tr, Panic)
           | (tr, Err err) \<Rightarrow> (tr, Return x (Some err))
           | (tr, Ok out) \<Rightarrow>
               (tr, Return (assertT x
                  (if Kind (ValueOf x) = KPtr then VPtr (Some (VStruct t out))
                   else VStruct t out)) None))
      | Some _ \<Rightarrow> ([], Return x (Some (Errorf ''input is not a struct''))))"
  unfolding StructEncryptTag.simps [of c x key tn tv] Copy_id assms(2) using assms(1) by simp

lemma failed_call_aborts:
  "StructEncryptTag c x k tn tv = (tr, out) \<Longrightarrow> s \<in> set tr \<Longrightarrow> c s k = Inl e
     \<Longrightarrow> out = Return x (Some e)"
  "StructEncryptTag_fields c fs k tn tv = (tr, r) \<Longrightarrow> s \<in> set tr \<Longrightarrow> c s k = Inl e
     \<Longrightarrow> r = Err e"
  "StructEncryptTag_field c f k tn tv = (tr, r') \<Longrightarrow> s \<in> set tr \<Longrightarrow> c s k = Inl e
     \<Longrightarrow> r' = Err e"
proof (induction c x k tn tv and c fs k tn tv and c f k tn tv
    arbitrary: tr out and tr r and tr r'
    rule: StructEncryptTag_StructEncryptTag_fields_StructEncryptTag_field.induct)
  case (1 Encrypt input key tagName tagVal)
  from "1.prems" "1.IH" show ?case
    by (auto simp add: StructEncryptTag.simps
        split: if_splits option.splits val.splits prod.splits res.splits)
next
  case (2 Encrypt key tagName tagVal)
  then show ?case by simp
next
  case (3 Encrypt f fs key tagName tagVal)
  from "3.prems" "3.IH" show ?case
    by (fastforce split: prod.splits res.splits)
next
  case (4 Encrypt f key tagName tagVal)
  from "4.prems" "4.IH" show ?case
    by (auto simp add: StructEncryptTag_field.simps
        split: if_splits option.splits sum.splits prod.splits outcome.splits)
qed

lemma failed_call_aborts_items:
  "StructSliceEncryptTag_items c xs k tn tv = (tr, r) \<Longrightarrow> s \<in> set tr \<Longrightarrow> c s k = Inl e
     \<Longrightarrow> r = Err e"
proof (induction xs arbitrary: tr r)
  case Nil
  then show ?case by simp
next
  case (Cons x xs)
  from Cons.prems Cons.IH show ?case
    by (auto split: if_splits prod.splits res.splits outcome.splits option.splits
        dest: failed_call_aborts(1))
qed

lemma failed_call_aborts_slice:
  "StructSliceEncryptTag c x k tn tv = (tr, out) \<Longrightarrow> s \<in> set tr \<Longrightarrow> c s k = Inl e
     \<Longrightarrow> out = Return x (Some e)"
  by (auto simp add: StructSliceEncryptTag_def
      split: if_splits option.splits val.splits prod.splits res.splits
      dest: failed_call_aborts_items)

lemma failed_call_aborts_interface:
  "InterfaceEncryptTag c x k tn tv = (tr, out) \<Longrightarrow> s \<in> set tr \<Longrightarrow> c s k = Inl e
     \<Longrightarrow> out = Return x (Some e)"
  by (auto simp add: InterfaceEncryptTag_def
      split: if_splits option.splits prod.splits outcome.splits
      dest: failed_call_aborts(1) failed_call_aborts_slice)

definition sample_pair :: val where
  "sample_pair = VStruct ''main.Pair''
     [Field ''First'' True [(''encrypt'', ''true'')] (VString ''alice''),
      Field ''Age'' True [(''json'', ''age'')] (VInt 30),
      Field ''Second'' True [(''encrypt'', ''true'')] (VString ''bob''),
      Field ''Third'' True [(''encrypt'', ''true'')] (VString ''carol'')]"

text \<open>
  C1. For every entry point, input, key and cipher: if one of the cipher calls made during the
  call failed, then the call returns the original input together with that error. So a call
  that returns without error has seen every one of its cipher calls succeed, and nothing
  partially transformed is returned.
\<close>

theorem abort_on_cipher_failure:
  assumes "F \<in> set entry_points"
    and "F c x k tn tv = (tr, out)"
    and "s \<in> set tr"
    and "c s k = Inl e"
  shows "out = Return x (Some e)"
proof -
  have "F = StructEncryptTag \<or> F = StructSliceEncryptTag \<or> F = InterfaceEncryptTag"
    using assms(1)
    by (auto simp add: entry_points_def StructDecryptTag_fun_eq StructEncryptTagInterface_fun_eq
        StructSliceDecryptTag_fun_eq StructSliceEncryptTagInterface_fun_eq
        InterfaceDecryptTag_fun_eq InterfaceEncryptTagInterface_fun_eq)
  with assms(2-4) show ?thesis
    by (auto dest: failed_call_aborts(1) failed_call_aborts_slice failed_call_aborts_interface)
qed

theorem abort_on_cipher_failure_witness:
  "StructEncryptTag \<in> set entry_points
   \<and> StructEncryptTag failing_Encrypt sample_pair ''deadbeef'' ''encrypt'' ''true''
       = ([''alice'', ''bob''], Return sample_pair (Some (Errorf ''cipher: invalid key'')))
   \<and> ''bob'' \<in> set [''alice'', ''bob'']
   \<and> failing_Encrypt ''bob'' ''deadbeef'' = Inl (Errorf ''cipher: invalid key'')"
  using abort_on_cipher_failure [of StructEncryptTag failing_Encrypt sample_pair
      "''deadbeef''" "''encrypt''" "''true''" "[''alice'', ''bob'']"
      "Return sample_pair (Some (Errorf ''cipher: invalid key''))" "''bob''"
      "Errorf ''cipher: invalid key''"]
  by (simp add: entry_points_def StructEncryptTag.simps StructEncryptTag_field.simps
      sample_pair_def failing_Encrypt_def Tag_Get_def)

text \<open>
  C3, as stated, fails: the dispatching entry point passes an integer through with no error.
\<close>

theorem unsupported_shape_counterexample:
  "InterfaceEncryptTag toy_Encrypt (VInt 30) ''deadbeef'' ''encrypt'' ''true''
     = ([], Return (VInt 30) None)"
  by (simp add: InterfaceEncryptTag_def)

text \<open>
  C3, amended. For a non-empty key:
  the struct entry points return the original input and the error "input is not a struct"
  whenever the root, after dereferencing a root pointer, exists and is not a struct;
  the slice entry points return the original input and the error "input is not a slice"
  whenever the root itself is not a slice;
  the dispatching entry points return the original input and no error whenever the root is
  neither a struct, nor a non-nil pointer to a struct, nor a slice.
  None of these calls reaches the cipher.
\<close>

theorem unsupported_shape:
  assumes "key \<noteq> ''''"
  shows "(F \<in> {StructEncryptTag, StructDecryptTag, StructEncryptTagInterface}
          \<longrightarrow> (if Kind (ValueOf input) = KPtr then Elem (ValueOf input) else ValueOf input) = Some v
          \<longrightarrow> Kind (Some v) \<noteq> KStruct
          \<longrightarrow> F c input key tagName tagVal
                = ([], Return input (Some (Errorf ''input is not a struct''))))
       \<and> (G \<in> {StructSliceEncryptTag, StructSliceDecryptTag, StructSliceEncryptTagInterface}
          \<longrightarrow> Kind (ValueOf input) \<noteq> KSlice
          \<longrightarrow> G c input key tagName tagVal
                = ([], Return input (Some (Errorf ''input is not a slice''))))
       \<and> (H \<in> {InterfaceEncryptTag, InterfaceDecryptTag, InterfaceEncryptTagInterface}
          \<longrightarrow> Kind (ValueOf input) \<noteq> KStruct
          \<longrightarrow> \<not> (Kind (ValueOf input) = KPtr \<and> Kind (Elem (ValueOf input)) = KStruct)
          \<longrightarrow> Kind (ValueOf input) \<noteq> KSlice
          \<longrightarrow> H c input key tagName tagVal = ([], Return input None))"
proof (intro conjI impI)
  assume F: "F \<in> {StructEncryptTag, StructDecryptTag, StructEncryptTagInterface}"
    and root: "(if Kind (ValueOf input) = KPtr then Elem (ValueOf input) else ValueOf input) = Some v"
    and kind: "Kind (Some v) \<noteq> KStruct"
  from F have "F = StructEncryptTag"
    by (auto simp add: StructDecryptTag_fun_eq StructEncryptTagInterface_fun_eq)
  moreover from assms root kind
  have "StructEncryptTag c input key tagName tagVal
          = ([], Return input (Some (Errorf ''input is not a struct'')))"
    by (cases v) (simp_all add: StructEncryptTag_root [OF assms root])
  ultimately show "F c input key tagName tagVal
                     = ([], Return input (Some (Errorf ''input is not a struct'')))"
    by simp
next
  assume G: "G \<in> {StructSliceEncryptTag, StructSliceDecryptTag, StructSliceEncryptTagInterface}"
    and kind: "Kind (ValueOf input) \<noteq> KSlice"
  from G have "G = StructSliceEncryptTag"
    by (auto simp add: StructSliceDecryptTag_fun_eq StructSliceEncryptTagInterface_fun_eq)
  moreover from assms kind
  have "StructSliceEncryptTag c input key tagName tagVal
          = ([], Return input (Some (Errorf ''input is not a slice'')))"
    by (cases "ValueOf input") (auto simp add: StructSliceEncryptTag_def split: val.splits)
  ultimately show "G c input key tagName tagVal
                     = ([], Return input (Some (Errorf ''input is not a slice'')))"
    by simp
next
  assume H: "H \<in> {InterfaceEncryptTag, InterfaceDecryptTag, InterfaceEncryptTagInterface}"
    and k1: "Kind (ValueOf input) \<noteq> KStruct"
    and k2: "\<not> (Kind (ValueOf input) = KPtr \<and> Kind (Elem (ValueOf input)) = KStruct)"
    and k3: "Kind (ValueOf input) \<noteq> KSlice"
  from H have "H = InterfaceEncryptTag"
    by (auto simp add: InterfaceDecryptTag_fun_eq InterfaceEncryptTagInterface_fun_eq)
  moreover from assms k1 k2 k3
  have "InterfaceEncryptTag c input key tagName tagVal = ([], Return input None)"
    by (cases "ValueOf input") (auto simp add: InterfaceEncryptTag_def)
  ultimately show "H c input key tagName tagVal = ([], Return input None)"
    by simp
qed

theorem unsupported_shape_witness:
  "''deadbeef'' \<noteq> ''''
   \<and> StructDecryptTag toy_Decrypt (VPtr (Some (VSlice [VInt 1]))) ''deadbeef'' ''encrypt'' ''true''
       = ([], Return (VPtr (Some (VSlice [VInt 1]))) (Some (Errorf ''input is not a struct'')))
   \<and> StructSliceEncryptTag toy_Encrypt (VPtr (Some (VSlice [VInt 1]))) ''deadbeef'' ''encrypt'' ''true''
       = ([], Return (VPtr (Some (VSlice [VInt 1]))) (Some (Errorf ''input is not a slice'')))
   \<and> InterfaceEncryptTagInterface toy_Encrypt (VPtr (Some (VSlice [VInt 1]))) ''deadbeef'' ''encrypt'' ''true''
       = ([], Return (VPtr (Some (VSlice [VInt 1]))) None)"
  using unsupported_shape [of "''deadbeef''" StructDecryptTag "VPtr (Some (VSlice [VInt 1]))"
      "VSlice [VInt 1]" toy_Decrypt "''encrypt''" "''true''" StructSliceEncryptTag
      InterfaceEncryptTagInterface]
    unsupported_shape [of "''deadbeef''" StructDecryptTag "VPtr (Some (VSlice [VInt 1]))"
      "VSlice [VInt 1]" toy_Encrypt "''encrypt''" "''true''" StructSliceEncryptTag
      InterfaceEncryptTagInterface]
  by simp

section \<open>Fields the loop passes over\<close>

lemma StructEncryptTag_VStruct:
  assumes "key \<noteq> ''''"
  shows "StructEncryptTag c (VStruct t fs) key tn tv =
     (case StructEncryptTag_fields c fs key tn tv of
        (tr, Pan) \<Rightarrow> (tr, Panic)
      | (tr, Err err) \<Rightarrow> (tr, Return (VStruct t fs) (Some err))
      | (tr, Ok out) \<Rightarrow> (tr, Return (VStruct t out) None))"
  using StructEncryptTag_root [OF assms, of "VStruct t fs" "Some (VStruct t fs)" c tn tv]
  by simp

lemma StructEncryptTag_fields_length:
  "StructEncryptTag_fields c fs k tn tv = (tr, Ok out) \<Longrightarrow> length out = length fs"
  by (induction fs arbitrary: tr out) (auto split: prod.splits res.splits)

lemma StructEncryptTag_fields_append:
  "StructEncryptTag_fields c (fs1 @ fs2) k tn tv =
     (case StructEncryptTag_fields c fs1 k tn tv of
        (tr, Pan) \<Rightarrow> (tr, Pan)
      | (tr, Err err) \<Rightarrow> (tr, Err err)
      | (tr, Ok out1) \<Rightarrow>
          (case StructEncryptTag_fields c fs2 k tn tv of
             (tr', Pan) \<Rightarrow> (tr @ tr', Pan)
           | (tr', Err err) \<Rightarrow> (tr @ tr', Err err)
           | (tr', Ok out2) \<Rightarrow> (tr @ tr', Ok (out1 @ out2))))"
  by (induction fs1) (auto split: prod.splits res.splits)

lemma StructEncryptTag_fields_skip:
  assumes skip: "StructEncryptTag_field c f k tn tv = ([], Ok f)"
  shows "StructEncryptTag_fields c (fs1 @ f # fs2) k tn tv =
     (case StructEncryptTag_fields c (fs1 @ fs2) k tn tv of
        (tr, Pan) \<Rightarrow> (tr, Pan)
      | (tr, Err err) \<Rightarrow> (tr, Err err)
      | (tr, Ok out) \<Rightarrow> (tr, Ok (take (length fs1) out @ f # drop (length fs1) out)))"
proof -
  have one: "StructEncryptTag_fields c (f # fs2) k tn tv =
     (case StructEncryptTag_fields c fs2 k tn tv of
        (tr, Pan) \<Rightarrow> (tr, Pan)
      | (tr, Err err) \<Rightarrow> (tr, Err err)
      | (tr, Ok out) \<Rightarrow> (tr, Ok (f # out)))"
    by (simp add: skip split: prod.splits res.splits)
  show ?thesis
    unfolding StructEncryptTag_fields_append [of c fs1 "f # fs2"]
      StructEncryptTag_fields_append [of c fs1 fs2] one
    by (auto split: prod.splits res.splits dest: StructEncryptTag_fields_length)
qed

lemma StructEncryptTag_skip:
  assumes skip: "StructEncryptTag_field c f key tn tv = ([], Ok f)"
    and key: "key \<noteq> ''''"
  shows "(StructEncryptTag c (VStruct t (fs1 @ fs2)) key tn tv = (tr, Panic)
          \<longrightarrow> StructEncryptTag c (VStruct t (fs1 @ f # fs2)) key tn tv = (tr, Panic))
       \<and> (StructEncryptTag c (VStruct t (fs1 @ fs2)) key tn tv = (tr, Return y (Some e))
          \<longrightarrow> StructEncryptTag c (VStruct t (fs1 @ f # fs2)) key tn tv
                = (tr, Return (VStruct t (fs1 @ f # fs2)) (Some e)))
       \<and> (StructEncryptTag c (VStruct t (fs1 @ fs2)) key tn tv = (tr, Return y None)
          \<longrightarrow> (\<exists>out. y = VStruct t out \<and> length out = length fs1 + length fs2
                \<and> StructEncryptTag c (VStruct t (fs1 @ f # fs2)) key tn tv
                    = (tr, Return (VStruct t (take (length fs1) out @ f # drop (length fs1) out))
                         None)))"
  unfolding StructEncryptTag_VStruct [OF key] StructEncryptTag_fields_skip [OF skip]
  by (auto split: prod.splits res.splits dest: StructEncryptTag_fields_length)

lemma time_field_skip:
  assumes "fval f = VStruct ''time.Time'' tfs \<or> fval f = VPtr (Some (VStruct ''time.Time'' tfs))"
  shows "StructEncryptTag_field c f key tn tv = ([], Ok f)"
  using assms by (auto simp add: StructEncryptTag_field.simps)

lemma nil_field_skip:
  assumes "fval f = VPtr None"
  shows "StructEncryptTag_field c f key tn tv = ([], Ok f)"
  using assms by (simp add: StructEncryptTag_field.simps)

definition sample_time :: val where
  "sample_time = VStruct ''time.Time''
     [Field ''wall'' False [] (VInt 13),
      Field ''ext'' False [] (VInt 63),
      Field ''loc'' False [] (VPtr None)]"

text \<open>
  C6. Take a struct with a field whose value is a \<^verbatim>\<open>time.Time\<close> or a non-nil pointer to
  one, whatever the field's tag and visibility, and a non-empty key. Each of the three struct
  traversals (typed encrypt, typed decrypt, untyped encrypt) behaves on it as on the struct
  without that field: it makes the same cipher calls in the same order, panics or fails
  alike, and where it succeeds the result is the result for the struct without the field
  with the field put back, unchanged, at its position.
\<close>

theorem time_fields_skipped:
  assumes "fval f = VStruct ''time.Time'' tfs \<or> fval f = VPtr (Some (VStruct ''time.Time'' tfs))"
    and "key \<noteq> ''''"
    and "F \<in> {StructEncryptTag, StructDecryptTag, StructEncryptTagInterface}"
  shows "(F c (VStruct t (fs1 @ fs2)) key tn tv = (tr, Panic)
          \<longrightarrow> F c (VStruct t (fs1 @ f # fs2)) key tn tv = (tr, Panic))
       \<and> (F c (VStruct t (fs1 @ fs2)) key tn tv = (tr, Return y (Some e))
          \<longrightarrow> F c (VStruct t (fs1 @ f # fs2)) key tn tv
                = (tr, Return (VStruct t (fs1 @ f # fs2)) (Some e)))
       \<and> (F c (VStruct t (fs1 @ fs2)) key tn tv = (tr, Return y None)
          \<longrightarrow> (\<exists>out. y = VStruct t out \<and> length out = length fs1 + length fs2
                \<and> F c (VStruct t (fs1 @ f # fs2)) key tn tv
                    = (tr, Return (VStruct t (take (length fs1) out @ f # drop (length fs1) out))
                         None)))"
proof -
  from assms(3) have "F = StructEncryptTag"
    by (auto simp add: StructDecryptTag_fun_eq StructEncryptTagInterface_fun_eq)
  then show ?thesis
    using StructEncryptTag_skip [OF time_field_skip [OF assms(1)] assms(2)] by simp
qed

theorem time_fields_skipped_witness:
  "(fval (Field ''At'' True [(''encrypt'', ''true'')] (VPtr (Some sample_time)))
      = VStruct ''time.Time'' [Field ''wall'' False [] (VInt 13), Field ''ext'' False [] (VInt 63),
          Field ''loc'' False [] (VPtr None)]
    \<or> fval (Field ''At'' True [(''encrypt'', ''true'')] (VPtr (Some sample_time)))
      = VPtr (Some (VStruct ''time.Time'' [Field ''wall'' False [] (VInt 13),
          Field ''ext'' False [] (VInt 63), Field ''loc'' False [] (VPtr None)])))
   \<and> ''deadbeef'' \<noteq> ''''
   \<and> StructDecryptTag \<in> {StructEncryptTag, StructDecryptTag, StructEncryptTagInterface}
   \<and> StructDecryptTag toy_Encrypt
        (VStruct ''main.Event''
           [Field ''Name'' True [(''encrypt'', ''true'')] (VString ''alice''),
            Field ''Nick'' True [(''encrypt'', ''true'')] (VString ''al'')])
        ''deadbeef'' ''encrypt'' ''true''
      = ([''alice'', ''al''],
         Return (VStruct ''main.Event''
           [Field ''Name'' True [(''encrypt'', ''true'')] (VString ''deadbeefalice''),
            Field ''Nick'' True [(''encrypt'', ''true'')] (VString ''deadbeefal'')]) None)
   \<and> StructDecryptTag toy_Encrypt
        (VStruct ''main.Event''
           [Field ''Name'' True [(''encrypt'', ''true'')] (VString ''alice''),
            Field ''At'' True [(''encrypt'', ''true'')] (VPtr (Some sample_time)),
            Field ''Nick'' True [(''encrypt'', ''true'')] (VString ''al'')])
        ''deadbeef'' ''encrypt'' ''true''
      = ([''alice'', ''al''],
         Return (VStruct ''main.Event''
           [Field ''Name'' True [(''encrypt'', ''true'')] (VString ''deadbeefalice''),
            Field ''At'' True [(''encrypt'', ''true'')] (VPtr (Some sample_time)),
            Field ''Nick'' True [(''encrypt'', ''true'')] (VString ''deadbeefal'')]) None)"
  using time_fields_skipped [where f = "Field ''At'' True [(''encrypt'', ''true'')] (VPtr (Some sample_time))"
      and tfs = "[Field ''wall'' False [] (VInt 13), Field ''ext'' False [] (VInt 63),
                  Field ''loc'' False [] (VPtr None)]"
      and key = "''deadbeef''" and F = StructDecryptTag and c = toy_Encrypt
      and t = "''main.Event''"
      and ?fs1.0 = "[Field ''Name'' True [(''encrypt'', ''true'')] (VString ''alice'')]"
      and ?fs2.0 = "[Field ''Nick'' True [(''encrypt'', ''true'')] (VString ''al'')]"
      and tn = "''encrypt''" and tv = "''true''" and tr = "[''alice'', ''al'']"
      and y = "VStruct ''main.Event''
           [Field ''Name'' True [(''encrypt'', ''true'')] (VString ''deadbeefalice''),
            Field ''Nick'' True [(''encrypt'', ''true'')] (VString ''deadbeefal'')]"]
  by (simp add: sample_time_def StructDecryptTag.simps StructDecryptTag_field.simps
      toy_Encrypt_def Tag_Get_def)

text \<open>
  C10. Take a struct with a field whose value is a nil pointer, whatever the pointer's type
  and the field's tag and visibility, and a non-empty key. Each of the three struct
  traversals behaves on it as on the struct without that field: it makes the same cipher
  calls, panics or fails alike, and where it succeeds the result is the result for the struct
  without the field with the nil field put back at its position.
\<close>

theorem nil_pointer_fields_skipped:
  assumes "fval f = VPtr None"
    and "key \<noteq> ''''"
    and "F \<in> {StructEncryptTag, StructDecryptTag, StructEncryptTagInterface}"
  shows "(F c (VStruct t (fs1 @ fs2)) key tn tv = (tr, Panic)
          \<longrightarrow> F c (VStruct t (fs1 @ f # fs2)) key tn tv = (tr, Panic))
       \<and> (F c (VStruct t (fs1 @ fs2)) key tn tv = (tr, Return y (Some e))
          \<longrightarrow> F c (VStruct t (fs1 @ f # fs2)) key tn tv
                = (tr, Return (VStruct t (fs1 @ f # fs2)) (Some e)))
       \<and> (F c (VStruct t (fs1 @ fs2)) key tn tv = (tr, Return y None)
          \<longrightarrow> (\<exists>out. y = VStruct t out \<and> length out = length fs1 + length fs2
                \<and> F c (VStruct t (fs1 @ f # fs2)) key tn tv
                    = (tr, Return (VStruct t (take (length fs1) out @ f # drop (length fs1) out))
                         None)))"
proof -
  from assms(3) have "F = StructEncryptTag"
    by (auto simp add: StructDecryptTag_fun_eq StructEncryptTagInterface_fun_eq)
  then show ?thesis
    using StructEncryptTag_skip [OF nil_field_skip [OF assms(1)] assms(2)] by simp
qed

theorem nil_pointer_fields_skipped_witness:
  "fval (Field ''Mail'' True [(''encrypt'', ''true'')] (VPtr None)) = VPtr None
   \<and> ''deadbeef'' \<noteq> ''''
   \<and> StructEncryptTag \<in> {StructEncryptTag, StructDecryptTag, StructEncryptTagInterface}
   \<and> StructEncryptTag toy_Encrypt
        (VStruct ''main.Event''
           [Field ''Name'' True [(''encrypt'', ''true'')] (VString ''alice''),
            Field ''Nick'' True [(''encrypt'', ''true'')] (VString ''al'')])
        ''deadbeef'' ''encrypt'' ''true''
      = ([''alice'', ''al''],
         Return (VStruct ''main.Event''
           [Field ''Name'' True [(''encrypt'', ''true'')] (VString ''deadbeefalice''),
            Field ''Nick'' True [(''encrypt'', ''true'')] (VString ''deadbeefal'')]) None)
   \<and> StructEncryptTag toy_Encrypt
        (VStruct ''main.Event''
           [Field ''Name'' True [(''encrypt'', ''true'')] (VString ''alice''),
            Field ''Nick'' True [(''encrypt'', ''true'')] (VString ''al''),
            Field ''Mail'' True [(''encrypt'', ''true'')] (VPtr None)])
        ''deadbeef'' ''encrypt'' ''true''
      = ([''alice'', ''al''],
         Return (VStruct ''main.Event''
           [Field ''Name'' True [(''encrypt'', ''true'')] (VString ''deadbeefalice''),
            Field ''Nick'' True [(''encrypt'', ''true'')] (VString ''deadbeefal''),
            Field ''Mail'' True [(''encrypt'', ''true'')] (VPtr None)]) None)"
  using nil_pointer_fields_skipped [where f = "Field ''Mail'' True [(''encrypt'', ''true'')] (VPtr None)"
      and key = "''deadbeef''" and F = StructEncryptTag and c = toy_Encrypt
      and t = "''main.Event''"
      and ?fs1.0 = "[Field ''Name'' True [(''encrypt'', ''true'')] (VString ''alice''),
                     Field ''Nick'' True [(''encrypt'', ''true'')] (VString ''al'')]"
      and ?fs2.0 = "[]"
      and tn = "''encrypt''" and tv = "''true''" and tr = "[''alice'', ''al'']"
      and y = "VStruct ''main.Event''
           [Field ''Name'' True [(''encrypt'', ''true'')] (VString ''deadbeefalice''),
            Field ''Nick'' True [(''encrypt'', ''true'')] (VString ''deadbeefal'')]"]
  by (simp add: StructEncryptTag.simps StructEncryptTag_field.simps
      toy_Encrypt_def Tag_Get_def)

section \<open>The slice loop\<close>

lemma StructSliceEncryptTag_items_Ok:
  assumes "StructSliceEncryptTag_items c xs k tn tv = (tr, Ok ys)"
  shows "list_all2 (\<lambda>x y.
            if Kind (Some x) = KStruct \<or> Kind (Some x) = KPtr \<and> Kind (Elem (Some x)) = KStruct
            then \<exists>tri. StructEncryptTag c x k tn tv = (tri, Return y None)
            else y = x) xs ys
       \<and> tr = concat (map (\<lambda>x.
            if Kind (Some x) = KStruct \<or> Kind (Some x) = KPtr \<and> Kind (Elem (Some x)) = KStruct
            then fst (StructEncryptTag c x k tn tv) else []) xs)"
  using assms
proof (induction xs arbitrary: tr ys)
  case Nil
  then show ?case by simp
next
  case (Cons x xs)
  show ?case
  proof (cases "Kind (Some x) = KStruct \<or> Kind (Some x) = KPtr \<and> Kind (Elem (Some x)) = KStruct")
    case True
    with Cons.prems obtain tr1 y1 tr2 ys2
      where x: "StructEncryptTag c x k tn tv = (tr1, Return y1 None)"
        and rest: "StructSliceEncryptTag_items c xs k tn tv = (tr2, Ok ys2)"
        and tr: "tr = tr1 @ tr2" and ys: "ys = y1 # ys2"
      by (auto split: if_splits prod.splits res.splits outcome.splits option.splits)
    from Cons.IH [OF rest] True x tr ys show ?thesis
      by (simp split del: if_split)
  next
    case False
    with Cons.prems obtain ys2
      where rest: "StructSliceEncryptTag_items c xs k tn tv = (tr, Ok ys2)"
        and ys: "ys = x # ys2"
      by (auto split: if_splits prod.splits res.splits)
    from Cons.IH [OF rest] False ys show ?thesis
      by auto
  qed
qed

lemma StructSliceEncryptTag_items_untouched:
  assumes "\<forall>x\<in>set xs. \<not> (Kind (Some x) = KStruct
             \<or> Kind (Some x) = KPtr \<and> Kind (Elem (Some x)) = KStruct)"
  shows "StructSliceEncryptTag_items c xs k tn tv = ([], Ok xs)"
  using assms by (induction xs) auto

lemma StructSliceEncryptTag_VSlice:
  assumes "key \<noteq> ''''"
  shows "StructSliceEncryptTag c (VSlice xs) key tn tv =
     (case StructSliceEncryptTag_items c xs key tn tv of
        (tr, Pan) \<Rightarrow> (tr, Panic)
      | (tr, Err err) \<Rightarrow> (tr, Return (VSlice xs) (Some err))
      | (tr, Ok out) \<Rightarrow> (tr, Return (VSlice out) None))"
  using assms by (simp add: StructSliceEncryptTag_def)

text \<open>
  C7. For a slice and a non-empty key, when a slice entry point returns without error, the
  result is a slice of the same length whose element at each index is: where the input
  element is a struct or a non-nil pointer to a struct, the value the struct entry point
  returns for that element; for an element of any other kind, the element itself. The cipher
  calls are those of the struct elements, in the order of the elements. A slice with no
  struct and no non-nil pointer to a struct among its elements is returned as it is, with no
  error and no cipher call.
\<close>

theorem slice_elements:
  assumes "key \<noteq> ''''"
    and "(G, F) \<in> {(StructSliceEncryptTag, StructEncryptTag),
                     (StructSliceDecryptTag, StructDecryptTag),
                     (StructSliceEncryptTagInterface, StructEncryptTag)}"
  shows "(G c (VSlice xs) key tn tv = (tr, Return y None)
          \<longrightarrow> (\<exists>ys. y = VSlice ys \<and> length ys = length xs
                \<and> (\<forall>i<length xs.
                      if Kind (Some (xs ! i)) = KStruct
                         \<or> Kind (Some (xs ! i)) = KPtr \<and> Kind (Elem (Some (xs ! i))) = KStruct
                      then \<exists>tri. F c (xs ! i) key tn tv = (tri, Return (ys ! i) None)
                      else ys ! i = xs ! i)
                \<and> tr = concat (map (\<lambda>x.
                      if Kind (Some x) = KStruct
                         \<or> Kind (Some x) = KPtr \<and> Kind (Elem (Some x)) = KStruct
                      then fst (F c x key tn tv) else []) xs)))
       \<and> ((\<forall>x\<in>set xs. \<not> (Kind (Some x) = KStruct
                \<or> Kind (Some x) = KPtr \<and> Kind (Elem (Some x)) = KStruct))
          \<longrightarrow> G c (VSlice xs) key tn tv = ([], Return (VSlice xs) None))"
proof -
  from assms(2) have GF: "G = StructSliceEncryptTag" "F = StructEncryptTag"
    by (auto simp add: StructSliceDecryptTag_fun_eq StructSliceEncryptTagInterface_fun_eq
        StructDecryptTag_fun_eq)
  have ok: "\<exists>ys. y = VSlice ys \<and> length ys = length xs
                \<and> (\<forall>i<length xs.
                      if Kind (Some (xs ! i)) = KStruct
                         \<or> Kind (Some (xs ! i)) = KPtr \<and> Kind (Elem (Some (xs ! i))) = KStruct
                      then \<exists>tri. StructEncryptTag c (xs ! i) key tn tv = (tri, Return (ys ! i) None)
                      else ys ! i = xs ! i)
                \<and> tr = concat (map (\<lambda>x.
                      if Kind (Some x) = KStruct
                         \<or> Kind (Some x) = KPtr \<and> Kind (Elem (Some x)) = KStruct
                      then fst (StructEncryptTag c x key tn tv) else []) xs)"
    if ret: "StructSliceEncryptTag c (VSlice xs) key tn tv = (tr, Return y None)"
  proof -
    from ret obtain ys where items: "StructSliceEncryptTag_items c xs key tn tv = (tr, Ok ys)"
      and y: "y = VSlice ys"
      unfolding StructSliceEncryptTag_VSlice [OF assms(1)]
      by (auto split: prod.splits res.splits)
    from StructSliceEncryptTag_items_Ok [OF items] y show ?thesis
      by (simp add: list_all2_conv_all_nth)
  qed
  have untouched: "StructSliceEncryptTag c (VSlice xs) key tn tv = ([], Return (VSlice xs) None)"
    if "\<forall>x\<in>set xs. \<not> (Kind (Some x) = KStruct
                \<or> Kind (Some x) = KPtr \<and> Kind (Elem (Some x)) = KStruct)"
    unfolding StructSliceEncryptTag_VSlice [OF assms(1)]
    using StructSliceEncryptTag_items_untouched [OF that] by simp
  from ok untouched show ?thesis unfolding GF by blast
qed

theorem slice_elements_witness:
  "''deadbeef'' \<noteq> ''''
   \<and> (StructSliceEncryptTag, StructEncryptTag)
        \<in> {(StructSliceEncryptTag, StructEncryptTag), (StructSliceDecryptTag, StructDecryptTag),
            (StructSliceEncryptTagInterface, StructEncryptTag)}
   \<and> StructSliceEncryptTag toy_Encrypt
        (VSlice [VPtr (Some (VStruct ''main.User''
                   [Field ''Name'' True [(''encrypt'', ''true'')] (VString ''alice'')])),
                 VPtr None,
                 VPtr (Some (VStruct ''main.User''
                   [Field ''Name'' True [(''encrypt'', ''true'')] (VString ''bob'')]))])
        ''deadbeef'' ''encrypt'' ''true''
      = ([''alice'', ''bob''],
         Return (VSlice [VPtr (Some (VStruct ''main.User''
                   [Field ''Name'' True [(''encrypt'', ''true'')] (VString ''deadbeefalice'')])),
                 VPtr None,
                 VPtr (Some (VStruct ''main.User''
                   [Field ''Name'' True [(''encrypt'', ''true'')] (VString ''deadbeefbob'')]))])
           None)
   \<and> list_all (\<lambda>x. \<not> (Kind (Some x) = KStruct
                        \<or> Kind (Some x) = KPtr \<and> Kind (Elem (Some x)) = KStruct))
        [VString ''alice'', VString ''bob'']
   \<and> StructSliceEncryptTag toy_Encrypt (VSlice [VString ''alice'', VString ''bob''])
        ''deadbeef'' ''encrypt'' ''true''
      = ([], Return (VSlice [VString ''alice'', VString ''bob'']) None)"
  using slice_elements [where key = "''deadbeef''" and G = StructSliceEncryptTag
      and F = StructEncryptTag and c = toy_Encrypt and tn = "''encrypt''" and tv = "''true''"
      and xs = "[VPtr (Some (VStruct ''main.User''
                   [Field ''Name'' True [(''encrypt'', ''true'')] (VString ''alice'')])),
                 VPtr None,
                 VPtr (Some (VStruct ''main.User''
                   [Field ''Name'' True [(''encrypt'', ''true'')] (VString ''bob'')]))]"
      and tr = "[''alice'', ''bob'']"
      and y = "VSlice [VPtr (Some (VStruct ''main.User''
                   [Field ''Name'' True [(''encrypt'', ''true'')] (VString ''deadbeefalice'')])),
                 VPtr None,
                 VPtr (Some (VStruct ''main.User''
                   [Field ''Name'' True [(''encrypt'', ''true'')] (VString ''deadbeefbob'')]))]"]
    slice_elements [where key = "''deadbeef''" and G = StructSliceEncryptTag
      and F = StructEncryptTag and c = toy_Encrypt and tn = "''encrypt''" and tv = "''true''"
      and xs = "[VString ''alice'', VString ''bob'']"]
  by (simp add: StructSliceEncryptTag_def StructEncryptTag.simps StructEncryptTag_field.simps
      toy_Encrypt_def Tag_Get_def)

section \<open>Round trip\<close>

lemma Set_field_simps [simp]:
  "fval (Set_field f v) = v"
  "ftag (Set_field f v) = ftag f"
  "exported (Set_field f v) = exported f"
  "fname (Set_field f v) = fname f"
  "Set_field (Set_field f v) w = Set_field f w"
  by (cases f; simp)+

lemma Set_field_fval: "fval f = v \<Longrightarrow> Set_field f v = f"
  by (cases f) auto

lemma StructEncryptTag_struct_result:
  assumes "StructEncryptTag c x k tn tv = (tr, Return y None)"
    and "Kind (Some x) = KStruct"
  shows "Kind (Some y) = KStruct \<and> TypeString (Some y) = TypeString (Some x)"
proof (cases "k = ''''")
  case True
  with assms show ?thesis by (simp add: StructEncryptTag.simps)
next
  case False
  from assms(2) obtain t fs where x: "x = VStruct t fs" by (cases x) auto
  from assms(1) show ?thesis
    unfolding x StructEncryptTag_VStruct [OF False]
    by (auto split: prod.splits res.splits)
qed

lemma root_cases:
  assumes "(if Kind (ValueOf x) = KPtr then Elem (ValueOf x) else ValueOf x) = Some (VStruct t fs)"
  shows "x = VStruct t fs \<or> x = VPtr (Some (VStruct t fs))
       \<or> x = VIface (Some (VStruct t fs)) \<or> x = VIface (Some (VPtr (Some (VStruct t fs))))"
proof (cases x)
  case (VIface p)
  show ?thesis
  proof (cases p)
    case None
    with VIface assms show ?thesis by simp
  next
    case (Some v)
    with VIface assms show ?thesis by (cases v) (auto split: if_splits)
  qed
qed (use assms in \<open>auto split: if_splits\<close>)

lemma round_trip_aux:
  "(\<forall>s ct. E s k = Inr ct \<longrightarrow> D ct k = Inr s)
     \<Longrightarrow> StructEncryptTag E x k tn tv = (tr, Return y None)
     \<Longrightarrow> \<exists>tr'. StructEncryptTag D y k tn tv = (tr', Return x None)"
  "(\<forall>s ct. E s k = Inr ct \<longrightarrow> D ct k = Inr s)
     \<Longrightarrow> StructEncryptTag_fields E fs k tn tv = (tr, Ok out)
     \<Longrightarrow> \<exists>tr'. StructEncryptTag_fields D out k tn tv = (tr', Ok fs)"
  "(\<forall>s ct. E s k = Inr ct \<longrightarrow> D ct k = Inr s)
     \<Longrightarrow> StructEncryptTag_field E f k tn tv = (tr, Ok f')
     \<Longrightarrow> \<exists>tr'. StructEncryptTag_field D f' k tn tv = (tr', Ok f)"
proof (induction E x k tn tv and E fs k tn tv and E f k tn tv
    arbitrary: tr y and tr out and tr f'
    rule: StructEncryptTag_StructEncryptTag_fields_StructEncryptTag_field.induct)
  case (1 Encrypt input key tagName tagVal)
  show ?case
  proof (cases "key = ''''")
    case True
    with "1.prems" show ?thesis by (simp add: StructEncryptTag.simps)
  next
    case False
    obtain r where r: "(if Kind (ValueOf input) = KPtr then Elem (ValueOf input) else ValueOf input) = r"
      by simp
    note unf = StructEncryptTag_root [OF False r, of Encrypt tagName tagVal]
    from "1.prems"(2) obtain t fs out
      where root: "r = Some (VStruct t fs)"
        and fields: "StructEncryptTag_fields Encrypt fs key tagName tagVal = (tr, Ok out)"
        and y: "y = assertT input (if Kind (ValueOf input) = KPtr then VPtr (Some (VStruct t out))
                                   else VStruct t out)"
      unfolding unf
      by (auto split: option.splits val.splits prod.splits res.splits)
    from r [unfolded root]
    have root': "(if Kind (ValueOf (Copy input)) = KPtr then Elem (ValueOf (Copy input))
        else ValueOf (Copy input)) = Some (VStruct t fs)"
      unfolding Copy_id .
    from "1.IH" [OF False root' refl "1.prems"(1) fields]
    obtain tr' where inv: "StructEncryptTag_fields D out key tagName tagVal = (tr', Ok fs)"
      by blast
    from root_cases [OF r [unfolded root]] y inv False show ?thesis
      by (auto simp add: StructEncryptTag_root [OF False refl])
  qed
next
  case (2 Encrypt key tagName tagVal)
  then show ?case by simp
next
  case (3 Encrypt f fs key tagName tagVal)
  from "3.prems"(2) obtain tr1 f1 tr2 out2
    where f: "StructEncryptTag_field Encrypt f key tagName tagVal = (tr1, Ok f1)"
      and fs: "StructEncryptTag_fields Encrypt fs key tagName tagVal = (tr2, Ok out2)"
      and out: "out = f1 # out2"
    by (auto split: prod.splits res.splits)
  from "3.IH"(1) [OF "3.prems"(1) f] obtain tr1'
    where f': "StructEncryptTag_field D f1 key tagName tagVal = (tr1', Ok f)"
    by blast
  from "3.IH"(2) [OF f [symmetric] refl "3.prems"(1) fs] obtain tr2'
    where fs': "StructEncryptTag_fields D out2 key tagName tagVal = (tr2', Ok fs)"
    by blast
  from f' fs' out show ?case by simp
next
  case (4 Encrypt f key tagName tagVal)
  note rt = "4.prems"(1)
  note enc = "4.prems"(2) [unfolded StructEncryptTag_field.simps [of Encrypt f]]
  show ?case
  proof (cases "Kind (Some (fval f)) = KStruct \<and> TypeString (Some (fval f)) = ''time.Time''
                \<or> Kind (Some (fval f)) = KPtr \<and> Kind (Elem (Some (fval f))) = KStruct
                    \<and> TypeString (Elem (Some (fval f))) = ''time.Time''")
    case True
    with enc have "f' = f" by (auto split: if_splits)
    with True show ?thesis by (auto simp add: StructEncryptTag_field.simps)
  next
    case notime: False
    show ?thesis
    proof (cases "Tag_Get (ftag f) tagName = tagVal \<and> Kind (Some (fval f)) = KString")
      case True
      then obtain s where s: "fval f = VString s" by (cases "fval f") auto
      from enc notime True s obtain ct
        where ct: "Encrypt s key = Inr ct" and ex: "exported f"
          and f': "f' = Set_field f (VString ct)"
        by (auto split: if_splits sum.splits)
      from rt ct have "D ct key = Inr s" by blast
      with True ex f' s show ?thesis
        by (auto simp add: StructEncryptTag_field.simps Set_field_fval)
    next
      case nostr: False
      show ?thesis
      proof (cases "Tag_Get (ftag f) tagName = tagVal \<and> Kind (Some (fval f)) = KPtr
                    \<and> Kind (Elem (Some (fval f))) = KString")
        case True
        then obtain p where p: "fval f = VPtr p" by (cases "fval f") auto
        with True obtain e where e: "p = Some e" "Kind (Some e) = KString" by (cases p) auto
        then obtain s where "e = VString s" by (cases e) auto
        with p e have s: "fval f = VPtr (Some (VString s))" by simp
        from enc notime nostr True s obtain ct
          where ct: "Encrypt s key = Inr ct" and ex: "exported f"
            and f': "f' = Set_field f (VPtr (Some (VString ct)))"
          by (auto split: if_splits sum.splits)
        from rt ct have "D ct key = Inr s" by blast
        with True ex f' s show ?thesis
          by (auto simp add: StructEncryptTag_field.simps Set_field_fval)
      next
        case noptrstr: False
        show ?thesis
        proof (cases "Kind (Some (fval f)) = KStruct")
          case True
          with enc notime nostr noptrstr obtain r
            where ex: "exported f"
              and sub: "StructEncryptTag Encrypt (fval f) key tagName tagVal = (tr, Return r None)"
              and f': "f' = Set_field f r"
            by (auto split: if_splits prod.splits outcome.splits option.splits)
          from notime nostr noptrstr True ex
          have c1: "\<not> (Kind (Some (fval f)) = KStruct \<and> TypeString (Some (fval f)) = ''time.Time'')"
            and c2: "\<not> (Kind (Some (fval f)) = KPtr \<and> Kind (Elem (Some (fval f))) = KStruct
                         \<and> TypeString (Elem (Some (fval f))) = ''time.Time'')"
            and c3: "\<not> (Tag_Get (ftag f) tagName = tagVal \<and> Kind (Some (fval f)) = KString)"
            and c4: "\<not> (Tag_Get (ftag f) tagName = tagVal \<and> Kind (Some (fval f)) = KPtr
                         \<and> Kind (Elem (Some (fval f))) = KString)"
            and c6: "\<not> \<not> exported f"
            by auto
          from "4.IH"(1) [OF c1 c2 c3 c4 True c6 rt sub] obtain tr'
            where inv: "StructEncryptTag D r key tagName tagVal = (tr', Return (fval f) None)"
            by blast
          from StructEncryptTag_struct_result [OF sub True]
          have shape: "Kind (Some r) = KStruct" "TypeString (Some r) = TypeString (Some (fval f))"
            by auto
          from shape notime True ex f' inv show ?thesis
            by (auto simp add: StructEncryptTag_field.simps Set_field_fval)
        next
          case nostruct: False
          show ?thesis
          proof (cases "Kind (Some (fval f)) = KPtr \<and> Kind (Elem (Some (fval f))) = KStruct")
            case True
            then obtain p where p: "fval f = VPtr p" by (cases "fval f") auto
            with True obtain e where pe: "p = Some e" and ke: "Kind (Some e) = KStruct"
              by (cases p) auto
            from p pe have e: "fval f = VPtr (Some e)" by simp
            from e ke enc notime nostr noptrstr nostruct True obtain r
              where ex: "exported f"
                and sub: "StructEncryptTag Encrypt e key tagName tagVal = (tr, Return r None)"
                and f': "f' = Set_field f (VPtr (Some r))"
              by (auto split: if_splits prod.splits outcome.splits option.splits)
            from notime nostr noptrstr nostruct True ex e
            have c1: "\<not> (Kind (Some (fval f)) = KStruct \<and> TypeString (Some (fval f)) = ''time.Time'')"
              and c2: "\<not> (Kind (Some (fval f)) = KPtr \<and> Kind (Elem (Some (fval f))) = KStruct
                           \<and> TypeString (Elem (Some (fval f))) = ''time.Time'')"
              and c3: "\<not> (Tag_Get (ftag f) tagName = tagVal \<and> Kind (Some (fval f)) = KString)"
              and c4: "\<not> (Tag_Get (ftag f) tagName = tagVal \<and> Kind (Some (fval f)) = KPtr
                           \<and> Kind (Elem (Some (fval f))) = KString)"
              and c5: "Kind (Some (fval f)) \<noteq> KStruct"
              and c6: "\<not> \<not> exported f"
              and c7: "Elem (Some (fval f)) = Some e"
              by auto
            from "4.IH"(2) [OF c1 c2 c3 c4 c5 True c6 c7 rt sub] obtain tr'
              where inv: "StructEncryptTag D r key tagName tagVal = (tr', Return e None)"
              by blast
            from StructEncryptTag_struct_result [OF sub ke]
            have shape: "Kind (Some r) = KStruct" "TypeString (Some r) = TypeString (Some e)"
              by auto
            from shape notime nostr noptrstr True ex f' inv e show ?thesis
              by (auto simp add: StructEncryptTag_field.simps Set_field_fval)
          next
            case False
            with enc notime nostr noptrstr nostruct have "f' = f"
              by (auto split: if_splits)
            with notime nostr noptrstr nostruct False show ?thesis
              by (auto simp add: StructEncryptTag_field.simps)
          qed
        qed
      qed
    qed
  qed
qed

lemma error_from_cipher:
  "StructEncryptTag c x k tn tv = (tr, Return y (Some e)) \<Longrightarrow> Kind (Some x) = KStruct
     \<Longrightarrow> \<exists>s\<in>set tr. c s k = Inl e"
  "StructEncryptTag_fields c fs k tn tv = (tr, Err e) \<Longrightarrow> \<exists>s\<in>set tr. c s k = Inl e"
  "StructEncryptTag_field c f k tn tv = (tr, Err e) \<Longrightarrow> \<exists>s\<in>set tr. c s k = Inl e"
proof (induction c x k tn tv and c fs k tn tv and c f k tn tv
    arbitrary: tr y and tr and tr
    rule: StructEncryptTag_StructEncryptTag_fields_StructEncryptTag_field.induct)
  case (1 Encrypt input key tagName tagVal)
  from "1.prems"(2) obtain t fs where x: "input = VStruct t fs" by (cases input) auto
  from "1.prems"(1) have key: "key \<noteq> ''''" by (auto simp add: StructEncryptTag.simps)
  from "1.prems"(1) have "StructEncryptTag_fields Encrypt fs key tagName tagVal = (tr, Err e)"
    unfolding x StructEncryptTag_VStruct [OF key]
    by (auto split: prod.splits res.splits)
  moreover have "(if Kind (ValueOf (Copy input)) = KPtr then Elem (ValueOf (Copy input))
      else ValueOf (Copy input)) = Some (VStruct t fs)"
    by (simp add: x)
  ultimately show ?case using "1.IH" [OF key _ refl] by blast
next
  case (2 Encrypt key tagName tagVal)
  then show ?case by simp
next
  case (3 Encrypt f fs key tagName tagVal)
  from "3.prems" "3.IH" show ?case
    by (fastforce split: prod.splits res.splits)
next
  case (4 Encrypt f key tagName tagVal)
  from "4.prems" "4.IH" show ?case
    by (auto simp add: StructEncryptTag_field.simps [of Encrypt f]
        split: if_splits option.splits sum.splits prod.splits outcome.splits)
qed

text \<open>
  C8, as stated for every record with a tagged string field, fails: on a record that also
  has an unexported tagged string field the encrypt traversal panics in \<^verbatim>\<open>SetString\<close>,
  after both cipher calls, and there is no result to decrypt. The sample cipher used here
  does satisfy \<open>Decrypt (Encrypt s key) key = s\<close>.
\<close>

theorem round_trip_counterexample:
  "StructEncryptTag toy_Encrypt
     (VStruct ''main.User''
        [Field ''Name'' True [(''encrypt'', ''true'')] (VString ''alice''),
         Field ''secret'' False [(''encrypt'', ''true'')] (VString ''hidden'')])
     ''deadbeef'' ''encrypt'' ''true''
   = ([''alice'', ''hidden''], Panic)
   \<and> (\<forall>s. \<exists>ct. toy_Encrypt s ''deadbeef'' = Inr ct \<and> toy_Decrypt ct ''deadbeef'' = Inr s)"
  by (simp add: StructEncryptTag.simps StructEncryptTag_field.simps
      toy_Encrypt_def toy_Decrypt_def Tag_Get_def)

text \<open>
  C8, amended. Let the cipher satisfy \<open>Decrypt (Encrypt s key) key = s\<close> for all texts \<open>s\<close>.
  If the encrypt traversal of any input \<open>x\<close> returns \<open>y\<close> without error, then the decrypt
  traversal of \<open>y\<close>, with the same key, tag name and tag value, returns \<open>x\<close> without error:
  every tagged string field holds its original text again and every other field is as in
  \<open>x\<close>. For a record, the encrypt traversal under such a cipher never returns an error:
  either the reflection API panics on an unexported field, or the traversal returns such a
  \<open>y\<close>.
\<close>

theorem round_trip:
  assumes "\<forall>s. \<exists>ct. Encrypt s key = Inr ct \<and> Decrypt ct key = Inr s"
  shows "(StructEncryptTag Encrypt x key tn tv = (tr, Return y None)
          \<longrightarrow> (\<exists>tr'. StructDecryptTag Decrypt y key tn tv = (tr', Return x None)))
       \<and> (snd (StructEncryptTag Encrypt (VStruct t fs) key tn tv) = Panic
          \<or> (\<exists>tr1 y1 tr2. StructEncryptTag Encrypt (VStruct t fs) key tn tv = (tr1, Return y1 None)
                \<and> StructDecryptTag Decrypt y1 key tn tv = (tr2, Return (VStruct t fs) None)))"
proof -
  from assms have rt: "\<forall>s ct. Encrypt s key = Inr ct \<longrightarrow> Decrypt ct key = Inr s"
    by (metis sum.inject(2))
  have inv: "\<exists>tr'. StructDecryptTag Decrypt b key tn tv = (tr', Return a None)"
    if "StructEncryptTag Encrypt a key tn tv = (tr0, Return b None)" for a b tr0
    unfolding StructDecryptTag_fun_eq
    using round_trip_aux(1) [of Encrypt key Decrypt a tn tv tr0 b, OF rt that] .
  have "\<exists>tr1 y1. StructEncryptTag Encrypt (VStruct t fs) key tn tv = (tr1, Return y1 None)"
    if np: "snd (StructEncryptTag Encrypt (VStruct t fs) key tn tv) \<noteq> Panic"
  proof -
    obtain tr1 out where res: "StructEncryptTag Encrypt (VStruct t fs) key tn tv = (tr1, out)"
      by (cases "StructEncryptTag Encrypt (VStruct t fs) key tn tv") auto
    with np obtain y1 err where out: "out = Return y1 err" by (cases out) auto
    show ?thesis
    proof (cases err)
      case None
      with res out show ?thesis by simp
    next
      case (Some e)
      with res out error_from_cipher(1) [of Encrypt "VStruct t fs" key tn tv tr1 y1 e]
      obtain s where "Encrypt s key = Inl e" by auto
      with assms show ?thesis by (metis sum.distinct(1))
    qed
  qed
  with inv show ?thesis by blast
qed

theorem round_trip_witness:
  "(\<forall>s. \<exists>ct. toy_Encrypt s ''deadbeef'' = Inr ct \<and> toy_Decrypt ct ''deadbeef'' = Inr s)
   \<and> StructEncryptTag toy_Encrypt
        (VStruct ''main.User''
           [Field ''Name'' True [(''encrypt'', ''true'')] (VString ''alice''),
            Field ''Age'' True [] (VInt 30)])
        ''deadbeef'' ''encrypt'' ''true''
      = ([''alice''],
         Return (VStruct ''main.User''
           [Field ''Name'' True [(''encrypt'', ''true'')] (VString ''deadbeefalice''),
            Field ''Age'' True [] (VInt 30)]) None)
   \<and> StructDecryptTag toy_Decrypt
        (VStruct ''main.User''
           [Field ''Name'' True [(''encrypt'', ''true'')] (VString ''deadbeefalice''),
            Field ''Age'' True [] (VInt 30)])
        ''deadbeef'' ''encrypt'' ''true''
      = ([''deadbeefalice''],
         Return (VStruct ''main.User''
           [Field ''Name'' True [(''encrypt'', ''true'')] (VString ''alice''),
            Field ''Age'' True [] (VInt 30)]) None)"
  using round_trip [where Encrypt = toy_Encrypt and Decrypt = toy_Decrypt
      and key = "''deadbeef''" and tn = "''encrypt''" and tv = "''true''"
      and x = "VStruct ''main.User''
           [Field ''Name'' True [(''encrypt'', ''true'')] (VString ''alice''),
            Field ''Age'' True [] (VInt 30)]"
      and tr = "[''alice'']"
      and y = "VStruct ''main.User''
           [Field ''Name'' True [(''encrypt'', ''true'')] (VString ''deadbeefalice''),
            Field ''Age'' True [] (VInt 30)]"
      and t = "''main.User''"
      and fs = "[Field ''Name'' True [(''encrypt'', ''true'')] (VString ''alice''),
                 Field ''Age'' True [] (VInt 30)]"]
  by (simp add: StructEncryptTag.simps StructEncryptTag_field.simps
      StructDecryptTag.simps StructDecryptTag_field.simps
      toy_Encrypt_def toy_Decrypt_def Tag_Get_def)

section \<open>Values in memory\<close>

text \<open>
  Whether a call leaves the caller's data alone depends on which memory cells it writes. In
  this second model pointers are addresses into a heap of cells, a slice is the list of the
  addresses of its elements, and a struct is stored in place (in the cell, or in the struct,
  that contains it). Allocation appends a cell; nothing is ever freed. The cipher calls are
  not recorded here.
\<close>

datatype hval =
    HString string
  | HInt int
  | HBool bool
  | HStruct string "hfield list"
  | HPtr "nat option"
  | HSlice "nat list"
  | HIface "hval option"
and hfield = HField (hname: string) (hexported: bool) (htag: "(string \<times> string) list") (hfval: hval)

type_synonym heap = "hval list"

definition load :: "heap \<Rightarrow> nat \<Rightarrow> hval option" where
  "load h a = (if a < length h then Some (h ! a) else None)"

definition alloc :: "heap \<Rightarrow> hval \<Rightarrow> nat \<times> heap" where
  "alloc h v = (length h, h @ [v])"

definition store :: "heap \<Rightarrow> nat \<Rightarrow> hval \<Rightarrow> heap" where
  "store h a v = h[a := v]"

text \<open>
  A \<^verbatim>\<open>reflect.Value\<close> of the source is either a value held in an interface (a snapshot) or
  a location in memory, read when it is used.
\<close>

datatype vref = Boxed hval | Cell nat

fun load_ref :: "heap \<Rightarrow> vref \<Rightarrow> hval option" where
  "load_ref h (Boxed v) = Some v"
| "load_ref h (Cell a) = load h a"

fun Kind_h :: "hval option \<Rightarrow> kind" where
  "Kind_h None = Invalid"
| "Kind_h (Some (HString _)) = KString"
| "Kind_h (Some (HInt _)) = KInt"
| "Kind_h (Some (HBool _)) = KBool"
| "Kind_h (Some (HStruct _ _)) = KStruct"
| "Kind_h (Some (HPtr _)) = KPtr"
| "Kind_h (Some (HSlice _)) = KSlice"
| "Kind_h (Some (HIface _)) = KInterface"

fun Elem_h :: "heap \<Rightarrow> hval option \<Rightarrow> hval option" where
  "Elem_h h (Some (HPtr (Some a))) = load h a"
| "Elem_h h (Some (HIface p)) = p"
| "Elem_h h _ = None"

fun TypeString_h :: "hval option \<Rightarrow> string" where
  "TypeString_h (Some (HStruct t _)) = t"
| "TypeString_h (Some (HString _)) = ''string''"
| "TypeString_h (Some (HInt _)) = ''int''"
| "TypeString_h (Some (HBool _)) = ''bool''"
| "TypeString_h _ = ''''"

fun StringOf_h :: "hval option \<Rightarrow> string" where
  "StringOf_h (Some (HString s)) = s"
| "StringOf_h None = ''<invalid Value>''"
| "StringOf_h v = ''<'' @ TypeString_h v @ '' Value>''"

fun ValueOf_h :: "hval \<Rightarrow> hval option" where
  "ValueOf_h (HIface None) = None"
| "ValueOf_h (HIface (Some v)) = Some v"
| "ValueOf_h v = Some v"

fun assertT_h :: "hval \<Rightarrow> hval \<Rightarrow> hval" where
  "assertT_h (HIface _) r = HIface (Some r)"
| "assertT_h _ r = r"

fun Set_hfield :: "hfield \<Rightarrow> hval \<Rightarrow> hfield" where
  "Set_hfield (HField n e tg _) v = HField n e tg v"

text \<open>
  The outcome of a call with the heap it leaves: out of fuel (the recursion of the source
  has no bound of its own), a panic, or a return. A step of a loop can also abort the loop
  with an error.
\<close>

datatype 'a run = Timeout | Panicked heap | Fin 'a heap

datatype step = STimeout | SPanic heap | SErr error heap | SOk heap

text \<open>\<^verbatim>\<open>v.Field(i)\<close>, read from where \<open>v\<close> lives.\<close>

definition Field_h :: "heap \<Rightarrow> vref \<Rightarrow> nat \<Rightarrow> hfield option" where
  "Field_h h v i =
     (case load_ref h v of
        Some (HStruct t fs) \<Rightarrow> if i < length fs then Some (fs ! i) else None
      | _ \<Rightarrow> None)"

text \<open>\<^verbatim>\<open>output.Field(i).Set(x)\<close> and \<^verbatim>\<open>SetString\<close>: field \<open>i\<close> of the struct in cell \<open>output\<close>.\<close>

definition Field_Set :: "heap \<Rightarrow> nat \<Rightarrow> nat \<Rightarrow> hval \<Rightarrow> step" where
  "Field_Set h output i x =
     (case load h output of
        Some (HStruct t fs) \<Rightarrow>
          if i < length fs
          then SOk (store h output (HStruct t (fs[i := Set_hfield (fs ! i) x])))
          else SPanic h
      | _ \<Rightarrow> SPanic h)"

text \<open>
  \<^verbatim>\<open>output.Field(i).Elem().Set(x)\<close>: the cell that the pointer in field \<open>i\<close> of the struct
  in cell \<open>output\<close> points to.
\<close>

definition Field_Elem_Set :: "heap \<Rightarrow> nat \<Rightarrow> nat \<Rightarrow> hval \<Rightarrow> step" where
  "Field_Elem_Set h output i x =
     (case load h output of
        Some (HStruct t fs) \<Rightarrow>
          if i < length fs
          then (case hfval (fs ! i) of
                  HPtr (Some p) \<Rightarrow> if p < length h then SOk (store h p x) else SPanic h
                | _ \<Rightarrow> SPanic h)
          else SPanic h
      | _ \<Rightarrow> SPanic h)"

section \<open>Duplication in memory\<close>

text \<open>
  Modelled from the spec: \<^verbatim>\<open>Copy\<close> of \<^verbatim>\<open>deepcopy.go\<close>, on the heap. By the spec (4.1) a
  non-null reference is duplicated into a new, independently owned target, a sequence into a
  new sequence of the same length and order with each element duplicated by the same rule,
  and scalars are copied by value: the target of a pointer and the elements of a slice are
  copied into newly allocated cells. The recursion follows pointers, so it carries fuel. An
  address outside the heap, which no Go value holds, is a panic.
\<close>

fun Copy_h :: "nat \<Rightarrow> heap \<Rightarrow> hval \<Rightarrow> hval run"
  and Copy_h_fields :: "nat \<Rightarrow> heap \<Rightarrow> hfield list \<Rightarrow> hfield list run"
  and Copy_h_cells :: "nat \<Rightarrow> heap \<Rightarrow> nat list \<Rightarrow> nat list run"
where
  "Copy_h 0 h v = Timeout"
| "Copy_h (Suc n) h (HString s) = Fin (HString s) h"
| "Copy_h (Suc n) h (HInt i) = Fin (HInt i) h"
| "Copy_h (Suc n) h (HBool b) = Fin (HBool b) h"
| "Copy_h (Suc n) h (HStruct t fs) =
     (case Copy_h_fields n h fs of
        Timeout \<Rightarrow> Timeout
      | Panicked h' \<Rightarrow> Panicked h'
      | Fin fs' h' \<Rightarrow> Fin (HStruct t fs') h')"
| "Copy_h (Suc n) h (HPtr None) = Fin (HPtr None) h"
| "Copy_h (Suc n) h (HPtr (Some a)) =
     (case load h a of
        None \<Rightarrow> Panicked h
      | Some target \<Rightarrow>
          (case Copy_h n h target of
             Timeout \<Rightarrow> Timeout
           | Panicked h' \<Rightarrow> Panicked h'
           | Fin target' h' \<Rightarrow> Fin (HPtr (Some (length h'))) (h' @ [target'])))"
| "Copy_h (Suc n) h (HSlice as) =
     (case Copy_h_cells n h as of
        Timeout \<Rightarrow> Timeout
      | Panicked h' \<Rightarrow> Panicked h'
      | Fin as' h' \<Rightarrow> Fin (HSlice as') h')"
| "Copy_h (Suc n) h (HIface None) = Fin (HIface None) h"
| "Copy_h (Suc n) h (HIface (Some v)) =
     (case Copy_h n h v of
        Timeout \<Rightarrow> Timeout
      | Panicked h' \<Rightarrow> Panicked h'
      | Fin v' h' \<Rightarrow> Fin (HIface (Some v')) h')"
| "Copy_h_fields n h [] = Fin [] h"
| "Copy_h_fields n h (f # fs) =
     (case Copy_h n h (hfval f) of
        Timeout \<Rightarrow> Timeout
      | Panicked h' \<Rightarrow> Panicked h'
      | Fin v' h' \<Rightarrow>
          (case Copy_h_fields n h' fs of
             Timeout \<Rightarrow> Timeout
           | Panicked h'' \<Rightarrow> Panicked h''
           | Fin fs' h'' \<Rightarrow> Fin (Set_hfield f v' # fs') h''))"
| "Copy_h_cells n h [] = Fin [] h"
| "Copy_h_cells n h (a # as) =
     (case load h a of
        None \<Rightarrow> Panicked h
      | Some x \<Rightarrow>
          (case Copy_h n h x of
             Timeout \<Rightarrow> Timeout
           | Panicked h' \<Rightarrow> Panicked h'
           | Fin x' h' \<Rightarrow>
               (case Copy_h_cells n (h' @ [x']) as of
                  Timeout \<Rightarrow> Timeout
                | Panicked h'' \<Rightarrow> Panicked h''
                | Fin as' h'' \<Rightarrow> Fin (length h' # as') h'')))"

section \<open>The struct traversal in memory\<close>

text \<open>
  \<^verbatim>\<open>StructEncryptTag\<close> (encrypt.go, lines 10 to 94) with its reads and writes. \<open>v\<close> is the
  copy, or the target of the copy if that is a pointer; \<open>output\<close> is the cell that
  \<^verbatim>\<open>reflect.New(t)\<close> allocates and \<^verbatim>\<open>output.Set(v)\<close> fills. The loop reads field \<open>i\<close> of
  \<open>v\<close> and writes field \<open>i\<close> of \<open>output\<close>, or the cell that the pointer in that field points
  to. Each call of \<^verbatim>\<open>StructEncryptTag\<close> uses up one unit of fuel.
\<close>

function StructEncryptTag_h :: "nat \<Rightarrow> cipher \<Rightarrow> heap \<Rightarrow> hval \<Rightarrow> string \<Rightarrow> string \<Rightarrow> string \<Rightarrow> (hval \<times> error option) run"
  and StructEncryptTag_h_fields :: "nat \<Rightarrow> cipher \<Rightarrow> heap \<Rightarrow> vref \<Rightarrow> nat \<Rightarrow> nat list \<Rightarrow> string \<Rightarrow> string \<Rightarrow> string \<Rightarrow> step"
  and StructEncryptTag_h_field :: "nat \<Rightarrow> cipher \<Rightarrow> heap \<Rightarrow> vref \<Rightarrow> nat \<Rightarrow> nat \<Rightarrow> string \<Rightarrow> string \<Rightarrow> string \<Rightarrow> step"
where
  "StructEncryptTag_h 0 Encrypt h input key tagName tagVal = Timeout"
| "StructEncryptTag_h (Suc n) Encrypt h input key tagName tagVal =
     (if key = '''' then Fin (input, None) h
      else
        (case Copy_h n h input of
           Timeout \<Rightarrow> Timeout
         | Panicked h1 \<Rightarrow> Panicked h1
         | Fin inputCopy h1 \<Rightarrow>
            (case (if Kind_h (ValueOf_h inputCopy) = KPtr
                   then (case ValueOf_h inputCopy of
                           Some (HPtr (Some a)) \<Rightarrow> Some (Cell a)
                         | _ \<Rightarrow> None)
                   else map_option Boxed (ValueOf_h inputCopy)) of
               None \<Rightarrow> Panicked h1
             | Some v \<Rightarrow>
                (case load_ref h1 v of
                   Some (HStruct t fs) \<Rightarrow>
                     (case alloc h1 (HStruct t fs) of
                        (output, h2) \<Rightarrow>
                          (case StructEncryptTag_h_fields n Encrypt h2 v output [0..<length fs]
                                  key tagName tagVal of
                             STimeout \<Rightarrow> Timeout
                           | SPanic h3 \<Rightarrow> Panicked h3
                           | SErr err h3 \<Rightarrow> Fin (input, Some err) h3
                           | SOk h3 \<Rightarrow>
                               if Kind_h (ValueOf_h inputCopy) = KPtr
                               then Fin (assertT_h input (HPtr (Some output)), None) h3
                               else (case load h3 output of
                                       None \<Rightarrow> Panicked h3
                                     | Some out \<Rightarrow> Fin (assertT_h input out, None) h3)))
                 | None \<Rightarrow> Panicked h1
                 | Some _ \<Rightarrow> Fin (input, Some (Errorf ''input is not a struct'')) h1))))"
| "StructEncryptTag_h_fields n Encrypt h v output [] key tagName tagVal = SOk h"
| "StructEncryptTag_h_fields n Encrypt h v output (i # is) key tagName tagVal =
     (case StructEncryptTag_h_field n Encrypt h v output i key tagName tagVal of
        STimeout \<Rightarrow> STimeout
      | SPanic h' \<Rightarrow> SPanic h'
      | SErr err h' \<Rightarrow> SErr err h'
      | SOk h' \<Rightarrow> StructEncryptTag_h_fields n Encrypt h' v output is key tagName tagVal)"
| "StructEncryptTag_h_field n Encrypt h v output i key tagName tagVal =
     (case Field_h h v i of
        None \<Rightarrow> SPanic h
      | Some f \<Rightarrow>
         if Kind_h (Some (hfval f)) = KStruct \<and> TypeString_h (Some (hfval f)) = ''time.Time''
         then SOk h
         else if Kind_h (Some (hfval f)) = KPtr \<and> Kind_h (Elem_h h (Some (hfval f))) = KStruct
                 \<and> TypeString_h (Elem_h h (Some (hfval f))) = ''time.Time''
         then SOk h
         else if Tag_Get (htag f) tagName = tagVal \<and> Kind_h (Some (hfval f)) = KString
         then (case Encrypt (StringOf_h (Some (hfval f))) key of
                 Inl err \<Rightarrow> SErr err h
               | Inr encryptedValue \<Rightarrow>
                   if hexported f then Field_Set h output i (HString encryptedValue)
                   else SPanic h)
         else if Tag_Get (htag f) tagName = tagVal \<and> Kind_h (Some (hfval f)) = KPtr
                 \<and> Kind_h (Elem_h h (Some (hfval f))) = KString
         then (case Encrypt (StringOf_h (Elem_h h (Some (hfval f)))) key of
                 Inl err \<Rightarrow> SErr err h
               | Inr encryptedValue \<Rightarrow>
                   if hexported f then Field_Elem_Set h output i (HString encryptedValue)
                   else SPanic h)
         else if Kind_h (Some (hfval f)) = KStruct
         then (if \<not> hexported f then SPanic h
               else (case StructEncryptTag_h n Encrypt h (hfval f) key tagName tagVal of
                       Timeout \<Rightarrow> STimeout
                     | Panicked h' \<Rightarrow> SPanic h'
                     | Fin (_, Some err) h' \<Rightarrow> SErr err h'
                     | Fin (encryptedField, None) h' \<Rightarrow> Field_Set h' output i encryptedField))
         else if Kind_h (Some (hfval f)) = KPtr \<and> Kind_h (Elem_h h (Some (hfval f))) = KStruct
         then (if \<not> hexported f then SPanic h
               else (case Elem_h h (Some (hfval f)) of
                       None \<Rightarrow> SPanic h
                     | Some e \<Rightarrow>
                         (case StructEncryptTag_h n Encrypt h e key tagName tagVal of
                            Timeout \<Rightarrow> STimeout
                          | Panicked h' \<Rightarrow> SPanic h'
                          | Fin (_, Some err) h' \<Rightarrow> SErr err h'
                          | Fin (encryptedField, None) h' \<Rightarrow>
                              Field_Elem_Set h' output i encryptedField)))
         else SOk h)"
  by pat_completeness auto
termination
  by (relation "inv_image (less_than <*lex*> less_than) (\<lambda>x. case x of
          Inl (n, _) \<Rightarrow> (n, 0::nat)
        | Inr (Inl (n, _, _, _, _, is, _)) \<Rightarrow> (n, 2 + length is)
        | Inr (Inr (n, _)) \<Rightarrow> (n, 1))") auto

declare StructEncryptTag_h.simps(2) [simp del] StructEncryptTag_h_field.simps [simp del]

section \<open>The slice and the dispatching entry points in memory\<close>

text \<open>
  \<^verbatim>\<open>StructSliceEncryptTag\<close> (encrypt.go, lines 98 to 136): \<^verbatim>\<open>v.Index(i)\<close> is the cell of
  element \<open>i\<close> of the copy, which \<^verbatim>\<open>Set\<close> overwrites.
\<close>

fun StructSliceEncryptTag_h_items :: "nat \<Rightarrow> cipher \<Rightarrow> heap \<Rightarrow> nat list \<Rightarrow> string \<Rightarrow> string \<Rightarrow> string \<Rightarrow> step" where
  "StructSliceEncryptTag_h_items n Encrypt h [] key tagName tagVal = SOk h"
| "StructSliceEncryptTag_h_items n Encrypt h (a # as) key tagName tagVal =
     (case load h a of
        None \<Rightarrow> SPanic h
      | Some item \<Rightarrow>
          if Kind_h (Some item) = KStruct
          then (case StructEncryptTag_h n Encrypt h item key tagName tagVal of
                  Timeout \<Rightarrow> STimeout
                | Panicked h' \<Rightarrow> SPanic h'
                | Fin (_, Some err) h' \<Rightarrow> SErr err h'
                | Fin (encryptedItem, None) h' \<Rightarrow>
                    StructSliceEncryptTag_h_items n Encrypt (store h' a encryptedItem) as
                      key tagName tagVal)
          else if Kind_h (Some item) = KPtr \<and> Kind_h (Elem_h h (Some item)) = KStruct
          then (case StructEncryptTag_h n Encrypt h item key tagName tagVal of
                  Timeout \<Rightarrow> STimeout
                | Panicked h' \<Rightarrow> SPanic h'
                | Fin (_, Some err) h' \<Rightarrow> SErr err h'
                | Fin (encryptedItem, None) h' \<Rightarrow>
                    StructSliceEncryptTag_h_items n Encrypt (store h' a encryptedItem) as
                      key tagName tagVal)
          else StructSliceEncryptTag_h_items n Encrypt h as key tagName tagVal)"

definition StructSliceEncryptTag_h :: "nat \<Rightarrow> cipher \<Rightarrow> heap \<Rightarrow> hval \<Rightarrow> string \<Rightarrow> string \<Rightarrow> string \<Rightarrow> (hval \<times> error option) run" where
  "StructSliceEncryptTag_h n Encrypt h input key tagName tagVal =
     (if key = '''' then Fin (input, None) h
      else
        (case Copy_h n h input of
           Timeout \<Rightarrow> Timeout
         | Panicked h1 \<Rightarrow> Panicked h1
         | Fin inputCopy h1 \<Rightarrow>
             (case ValueOf_h inputCopy of
                Some (HSlice as) \<Rightarrow>
                  (case StructSliceEncryptTag_h_items n Encrypt h1 as key tagName tagVal of
                     STimeout \<Rightarrow> Timeout
                   | SPanic h2 \<Rightarrow> Panicked h2
                   | SErr err h2 \<Rightarrow> Fin (input, Some err) h2
                   | SOk h2 \<Rightarrow> Fin (assertT_h input (HSlice as), None) h2)
              | _ \<Rightarrow> Fin (input, Some (Errorf ''input is not a slice'')) h1)))"

text \<open>\<^verbatim>\<open>InterfaceEncryptTag\<close> (encrypt.go, lines 140 to 175).\<close>

definition InterfaceEncryptTag_h :: "nat \<Rightarrow> cipher \<Rightarrow> heap \<Rightarrow> hval \<Rightarrow> string \<Rightarrow> string \<Rightarrow> string \<Rightarrow> (hval \<times> error option) run" where
  "InterfaceEncryptTag_h n Encrypt h input key tagName tagVal =
     (if key = '''' then Fin (input, None) h
      else
        (case ValueOf_h input of
           None \<Rightarrow> Fin (input, None) h
         | Some v \<Rightarrow>
             if Kind_h (Some v) = KStruct
             then (case StructEncryptTag_h n Encrypt h v key tagName tagVal of
                     Timeout \<Rightarrow> Timeout
                   | Panicked h' \<Rightarrow> Panicked h'
                   | Fin (_, Some err) h' \<Rightarrow> Fin (input, Some err) h'
                   | Fin (result, None) h' \<Rightarrow> Fin (assertT_h input result, None) h')
             else if Kind_h (Some v) = KPtr \<and> Kind_h (Elem_h h (Some v)) = KStruct
             then (case StructEncryptTag_h n Encrypt h v key tagName tagVal of
                     Timeout \<Rightarrow> Timeout
                   | Panicked h' \<Rightarrow> Panicked h'
                   | Fin (_, Some err) h' \<Rightarrow> Fin (input, Some err) h'
                   | Fin (result, None) h' \<Rightarrow> Fin (assertT_h input result, None) h')
             else if Kind_h (Some v) = KSlice
             then (case StructSliceEncryptTag_h n Encrypt h v key tagName tagVal of
                     Timeout \<Rightarrow> Timeout
                   | Panicked h' \<Rightarrow> Panicked h'
                   | Fin (_, Some err) h' \<Rightarrow> Fin (input, Some err) h'
                   | Fin (result, None) h' \<Rightarrow> Fin (assertT_h input result, None) h')
             else Fin (input, None) h))"

section \<open>Which cells a call can reach\<close>

fun addrs :: "hval \<Rightarrow> nat set" and addrs_field :: "hfield \<Rightarrow> nat set" where
  "addrs (HString _) = {}"
| "addrs (HInt _) = {}"
| "addrs (HBool _) = {}"
| "addrs (HStruct _ fs) = (\<Union>f\<in>set fs. addrs_field f)"
| "addrs (HPtr None) = {}"
| "addrs (HPtr (Some a)) = {a}"
| "addrs (HSlice as) = set as"
| "addrs (HIface None) = {}"
| "addrs (HIface (Some v)) = addrs v"
| "addrs_field (HField _ _ _ v) = addrs v"

definition closed_from :: "nat \<Rightarrow> heap \<Rightarrow> bool" where
  "closed_from n0 h \<longleftrightarrow> (\<forall>a. n0 \<le> a \<longrightarrow> a < length h \<longrightarrow> addrs (h ! a) \<subseteq> {n0..<length h})"

definition same_upto :: "nat \<Rightarrow> heap \<Rightarrow> heap \<Rightarrow> bool" where
  "same_upto n0 h h' \<longleftrightarrow> n0 \<le> length h \<and> length h \<le> length h' \<and> take n0 h' = take n0 h"

definition fresh_ext :: "heap \<Rightarrow> heap \<Rightarrow> nat set \<Rightarrow> bool" where
  "fresh_ext h h' A \<longleftrightarrow>
     same_upto (length h) h h' \<and> A \<subseteq> {length h..<length h'} \<and> closed_from (length h) h'"

lemma addrs_field_hfval [simp]: "addrs_field f = addrs (hfval f)"
  by (cases f) simp

lemma addrs_Set_hfield [simp]: "addrs (hfval (Set_hfield f v)) = addrs v"
  by (cases f) simp

lemma hfval_Set_hfield [simp]: "hfval (Set_hfield f v) = v"
  by (cases f) simp

lemma addrs_nth: "i < length fs \<Longrightarrow> addrs (hfval (fs ! i)) \<subseteq> addrs (HStruct t fs)"
  by (auto simp add: set_conv_nth)

lemma addrs_update:
  "addrs (HStruct t (fs[i := Set_hfield (fs ! i) x])) \<subseteq> addrs (HStruct t fs) \<union> addrs x"
proof
  fix a assume "a \<in> addrs (HStruct t (fs[i := Set_hfield (fs ! i) x]))"
  then obtain j where j: "j < length fs" "a \<in> addrs (hfval (fs[i := Set_hfield (fs ! i) x] ! j))"
    by (auto simp add: set_conv_nth)
  show "a \<in> addrs (HStruct t fs) \<union> addrs x"
  proof (cases "j = i")
    case True
    with j show ?thesis by simp
  next
    case False
    with j have "a \<in> addrs (hfval (fs ! j))" by simp
    with j(1) addrs_nth [of j fs t] show ?thesis by blast
  qed
qed

lemma addrs_assertT_h [simp]: "addrs (assertT_h x r) = addrs r"
  by (cases x) simp_all

lemma addrs_ValueOf_h: "ValueOf_h c = Some v \<Longrightarrow> addrs v = addrs c"
  by (cases c rule: ValueOf_h.cases) auto

lemma same_upto_refl: "n0 \<le> length h \<Longrightarrow> same_upto n0 h h"
  by (simp add: same_upto_def)

lemma same_upto_trans: "same_upto n0 h h' \<Longrightarrow> same_upto n0 h' h'' \<Longrightarrow> same_upto n0 h h''"
  by (simp add: same_upto_def)

lemma same_upto_mono: "same_upto n1 h h' \<Longrightarrow> n0 \<le> n1 \<Longrightarrow> same_upto n0 h h'"
  by (auto simp add: same_upto_def nth_equalityI list_eq_iff_nth_eq
      dest!: arg_cong [where f = "\<lambda>xs. xs ! _"])

lemma same_upto_append: "n0 \<le> length h \<Longrightarrow> same_upto n0 h (h @ xs)"
  by (simp add: same_upto_def)

lemma same_upto_store: "n0 \<le> a \<Longrightarrow> n0 \<le> length h \<Longrightarrow> same_upto n0 h (store h a v)"
  by (simp add: same_upto_def store_def)

lemma closed_from_append:
  assumes "closed_from n0 h" and "addrs v \<subseteq> {n0..<Suc (length h)}"
  shows "closed_from n0 (h @ [v])"
  unfolding closed_from_def
proof (intro allI impI)
  fix a assume a: "n0 \<le> a" "a < length (h @ [v])"
  show "addrs ((h @ [v]) ! a) \<subseteq> {n0..<length (h @ [v])}"
  proof (cases "a < length h")
    case True
    with assms(1) a have "addrs (h ! a) \<subseteq> {n0..<length h}" by (simp add: closed_from_def)
    with True show ?thesis by (auto simp add: nth_append)
  next
    case False
    with a have "a = length h" by simp
    with assms(2) show ?thesis by simp
  qed
qed

lemma closed_from_store:
  assumes "closed_from n0 h" and "addrs v \<subseteq> {n0..<length h}"
  shows "closed_from n0 (store h a v)"
  unfolding closed_from_def store_def
proof (intro allI impI)
  fix b assume b: "n0 \<le> b" "b < length (h[a := v])"
  show "addrs (h[a := v] ! b) \<subseteq> {n0..<length (h[a := v])}"
  proof (cases "b = a")
    case True
    with b assms(2) show ?thesis by simp
  next
    case False
    with assms(1) b have "addrs (h ! b) \<subseteq> {n0..<length h}" by (simp add: closed_from_def)
    with False show ?thesis by simp
  qed
qed

lemma closed_from_trans:
  assumes "closed_from n0 h" and "same_upto (length h) h h1" and "closed_from (length h) h1"
    and "n0 \<le> length h"
  shows "closed_from n0 h1"
  unfolding closed_from_def
proof (intro allI impI)
  fix a assume a: "n0 \<le> a" "a < length h1"
  from assms(2) have len: "length h \<le> length h1" and tk: "take (length h) h1 = h"
    by (simp_all add: same_upto_def)
  show "addrs (h1 ! a) \<subseteq> {n0..<length h1}"
  proof (cases "a < length h")
    case True
    from tk have "h1 ! a = h ! a" using True by (metis nth_take)
    with assms(1) a True len show ?thesis by (fastforce simp add: closed_from_def)
  next
    case False
    with assms(3) a have "addrs (h1 ! a) \<subseteq> {length h..<length h1}"
      by (simp add: closed_from_def)
    with assms(4) show ?thesis by auto
  qed
qed

lemma fresh_ext_refl: "fresh_ext h h {}"
  by (simp add: fresh_ext_def same_upto_def closed_from_def)

lemma fresh_ext_same_upto: "fresh_ext h h' A \<Longrightarrow> same_upto (length h) h h'"
  by (simp add: fresh_ext_def)

lemma fresh_ext_subset: "fresh_ext h h' A \<Longrightarrow> B \<subseteq> A \<Longrightarrow> fresh_ext h h' B"
  by (auto simp add: fresh_ext_def)

lemma fresh_ext_trans:
  assumes "fresh_ext h h1 A" and "fresh_ext h1 h2 B"
  shows "fresh_ext h h2 (A \<union> B)"
proof -
  from assms have s1: "same_upto (length h) h h1" and s2: "same_upto (length h1) h1 h2"
    by (simp_all add: fresh_ext_def)
  from s1 have len: "length h \<le> length h1" by (simp add: same_upto_def)
  from s2 have len2: "length h1 \<le> length h2" by (simp add: same_upto_def)
  from s1 same_upto_mono [OF s2 len] have s: "same_upto (length h) h h2"
    by (rule same_upto_trans)
  from assms have c1: "closed_from (length h) h1" and c2: "closed_from (length h1) h2"
    by (simp_all add: fresh_ext_def)
  have c: "closed_from (length h) h2"
    using c1 s2 c2 len by (rule closed_from_trans)
  from assms len len2 have "A \<union> B \<subseteq> {length h..<length h2}"
    by (auto simp add: fresh_ext_def)
  with s c show ?thesis by (simp add: fresh_ext_def)
qed

lemma fresh_ext_alloc:
  assumes "fresh_ext h h1 A" and "addrs x \<subseteq> {length h..<length h1}"
  shows "fresh_ext h (h1 @ [x]) (insert (length h1) A)"
proof -
  from assms(1) have s1: "same_upto (length h) h h1" and c1: "closed_from (length h) h1"
    and A: "A \<subseteq> {length h..<length h1}"
    by (simp_all add: fresh_ext_def)
  from s1 have len: "length h \<le> length h1" by (simp add: same_upto_def)
  from s1 same_upto_append [OF len, of "[x]"] have "same_upto (length h) h (h1 @ [x])"
    by (rule same_upto_trans)
  moreover from assms(2) have "addrs x \<subseteq> {length h..<Suc (length h1)}" by auto
  with c1 have "closed_from (length h) (h1 @ [x])" by (rule closed_from_append)
  moreover from A len have "insert (length h1) A \<subseteq> {length h..<length (h1 @ [x])}" by auto
  ultimately show ?thesis by (simp add: fresh_ext_def)
qed

lemma Copy_h_fresh:
  "(Copy_h n h v = Fin c h1 \<longrightarrow> fresh_ext h h1 (addrs c))
     \<and> (Copy_h n h v = Panicked h1 \<longrightarrow> same_upto (length h) h h1)"
  "(Copy_h_fields n h fs = Fin fs' h1 \<longrightarrow> fresh_ext h h1 (\<Union>f\<in>set fs'. addrs (hfval f)))
     \<and> (Copy_h_fields n h fs = Panicked h1 \<longrightarrow> same_upto (length h) h h1)"
  "(Copy_h_cells n h as = Fin as' h1 \<longrightarrow> fresh_ext h h1 (set as'))
     \<and> (Copy_h_cells n h as = Panicked h1 \<longrightarrow> same_upto (length h) h h1)"
proof (induction n h v and n h fs and n h as arbitrary: c h1 and fs' h1 and as' h1
    rule: Copy_h_Copy_h_fields_Copy_h_cells.induct)
  case (5 n h t fs)
  then show ?case by (auto split: run.splits)
next
  case (7 n h a)
  show ?case
  proof (cases "load h a")
    case None
    then show ?thesis by (simp add: same_upto_refl)
  next
    case (Some target)
    note IH = "7.IH" [OF Some]
    show ?thesis
    proof (cases "Copy_h n h target")
      case Timeout
      with Some show ?thesis by auto
    next
      case (Panicked hp)
      with Some IH [of _ hp] show ?thesis by auto
    next
      case (Fin target' h')
      with IH [of target' h'] have f0: "fresh_ext h h' (addrs target')" by simp
      then have "fresh_ext h (h' @ [target']) (insert (length h') (addrs target'))"
        by (rule fresh_ext_alloc) (use f0 in \<open>simp add: fresh_ext_def\<close>)
      then have "fresh_ext h (h' @ [target']) {length h'}"
        by (rule fresh_ext_subset) simp
      with Some Fin show ?thesis by auto
    qed
  qed
next
  case (8 n h as)
  then show ?case by (auto split: run.splits)
next
  case (10 n h v)
  then show ?case by (auto split: run.splits)
next
  case (12 n h f fs)
  show ?case
  proof (cases "Copy_h n h (hfval f)")
    case Timeout
    then show ?thesis by auto
  next
    case (Panicked hp)
    with "12.IH"(1) [of _ hp] show ?thesis by auto
  next
    case (Fin v' h')
    with "12.IH"(1) [of v' h'] have f1: "fresh_ext h h' (addrs v')" by simp
    note IH2 = "12.IH"(2) [OF Fin]
    show ?thesis
    proof (cases "Copy_h_fields n h' fs")
      case Timeout
      with Fin show ?thesis by auto
    next
      case (Panicked hp)
      with IH2 [of _ hp] have "same_upto (length h') h' hp" by simp
      with fresh_ext_same_upto [OF f1] have "same_upto (length h) h hp"
        by (meson same_upto_def same_upto_mono same_upto_trans)
      with Fin Panicked show ?thesis by auto
    next
      case Fin2: (Fin fs2 h2)
      with IH2 [of fs2 h2] have "fresh_ext h' h2 (\<Union>f\<in>set fs2. addrs (hfval f))" by simp
      with f1 have "fresh_ext h h2 (addrs v' \<union> (\<Union>f\<in>set fs2. addrs (hfval f)))"
        by (rule fresh_ext_trans)
      with Fin Fin2 show ?thesis by auto
    qed
  qed
next
  case (14 n h a as)
  show ?case
  proof (cases "load h a")
    case None
    then show ?thesis by (simp add: same_upto_refl)
  next
    case (Some x)
    note IH1 = "14.IH"(1) [OF Some]
    show ?thesis
    proof (cases "Copy_h n h x")
      case Timeout
      with Some show ?thesis by auto
    next
      case (Panicked hp)
      with Some IH1 [of _ hp] show ?thesis by auto
    next
      case (Fin x' h')
      with IH1 [of x' h'] have f0: "fresh_ext h h' (addrs x')" by simp
      then have "fresh_ext h (h' @ [x']) (insert (length h') (addrs x'))"
        by (rule fresh_ext_alloc) (use f0 in \<open>simp add: fresh_ext_def\<close>)
      then have f1: "fresh_ext h (h' @ [x']) {length h'}"
        by (rule fresh_ext_subset) simp
      note IH2 = "14.IH"(2) [OF Some Fin]
      show ?thesis
      proof (cases "Copy_h_cells n (h' @ [x']) as")
        case Timeout
        with Some Fin show ?thesis by auto
      next
        case (Panicked hp)
        with IH2 [of _ hp] have "same_upto (length (h' @ [x'])) (h' @ [x']) hp" by simp
        with fresh_ext_same_upto [OF f1] have "same_upto (length h) h hp"
          by (meson same_upto_def same_upto_mono same_upto_trans)
        with Some Fin Panicked show ?thesis by auto
      next
        case Fin2: (Fin as2 h2)
        with IH2 [of as2 h2] have "fresh_ext (h' @ [x']) h2 (set as2)" by simp
        with f1 have "fresh_ext h h2 ({length h'} \<union> set as2)"
          by (rule fresh_ext_trans)
        with Some Fin Fin2 show ?thesis by auto
      qed
    qed
  qed
qed (auto simp add: fresh_ext_refl same_upto_refl)

section \<open>The traversal writes only cells of its own\<close>

definition vref_in :: "nat \<Rightarrow> heap \<Rightarrow> vref \<Rightarrow> bool" where
  "vref_in n0 h v =
     (case v of Boxed bv \<Rightarrow> addrs bv \<subseteq> {n0..<length h} | Cell a \<Rightarrow> n0 \<le> a \<and> a < length h)"

definition loop_inv :: "nat \<Rightarrow> heap \<Rightarrow> vref \<Rightarrow> nat \<Rightarrow> bool" where
  "loop_inv n0 h v output \<longleftrightarrow>
     closed_from n0 h \<and> n0 \<le> output \<and> output < length h \<and> vref_in n0 h v"

fun ok_run :: "heap \<Rightarrow> (hval \<times> error option) run \<Rightarrow> bool" where
  "ok_run h Timeout = True"
| "ok_run h (Panicked h') = same_upto (length h) h h'"
| "ok_run h (Fin (r, Some e) h') = same_upto (length h) h h'"
| "ok_run h (Fin (r, None) h') = fresh_ext h h' (addrs r)"

fun step_ok :: "nat \<Rightarrow> heap \<Rightarrow> vref \<Rightarrow> nat \<Rightarrow> step \<Rightarrow> bool" where
  "step_ok n0 h v output STimeout = True"
| "step_ok n0 h v output (SPanic h') = same_upto n0 h h'"
| "step_ok n0 h v output (SErr e h') = same_upto n0 h h'"
| "step_ok n0 h v output (SOk h') = (same_upto n0 h h' \<and> loop_inv n0 h' v output)"

lemma loop_inv_len: "loop_inv n0 h v output \<Longrightarrow> n0 \<le> length h"
  by (simp add: loop_inv_def)

lemma load_addrs:
  "closed_from n0 h \<Longrightarrow> n0 \<le> a \<Longrightarrow> load h a = Some x \<Longrightarrow> addrs x \<subseteq> {n0..<length h}"
  by (auto simp add: closed_from_def load_def split: if_splits)

lemma load_ref_addrs:
  "closed_from n0 h \<Longrightarrow> vref_in n0 h v \<Longrightarrow> load_ref h v = Some x
     \<Longrightarrow> addrs x \<subseteq> {n0..<length h}"
  by (cases v) (auto simp add: vref_in_def dest: load_addrs)

lemma Field_h_addrs:
  assumes "loop_inv n0 h v output" and "Field_h h v i = Some f"
  shows "addrs (hfval f) \<subseteq> {n0..<length h}"
proof -
  from assms(2) obtain t fs where l: "load_ref h v = Some (HStruct t fs)"
    and i: "i < length fs" and f: "f = fs ! i"
    by (auto simp add: Field_h_def split: option.splits hval.splits if_splits)
  from assms(1) l have "addrs (HStruct t fs) \<subseteq> {n0..<length h}"
    using load_ref_addrs [of n0 h v "HStruct t fs"] by (simp add: loop_inv_def)
  with addrs_nth [OF i, of t] f show ?thesis by blast
qed

lemma Elem_h_addrs:
  assumes "closed_from n0 h" and "addrs x \<subseteq> {n0..<length h}" and "Elem_h h (Some x) = Some e"
  shows "addrs e \<subseteq> {n0..<length h}"
proof (cases x)
  case (HPtr p)
  with assms(3) obtain a where p: "p = Some a" and l: "load h a = Some e"
    by (cases p) auto
  from assms(2) HPtr p have "n0 \<le> a" by simp
  with load_addrs [OF assms(1) _ l] show ?thesis by simp
next
  case (HIface p)
  with assms(2,3) show ?thesis by auto
qed (use assms(3) in auto)

lemma vref_in_mono: "vref_in n0 h v \<Longrightarrow> length h \<le> length h' \<Longrightarrow> vref_in n0 h' v"
  by (cases v) (auto simp add: vref_in_def)

lemma loop_inv_lift:
  assumes inv: "loop_inv n0 h v output" and ext: "fresh_ext h h1 A"
  shows "same_upto n0 h h1" and "loop_inv n0 h1 v output" and "A \<subseteq> {n0..<length h1}"
proof -
  from inv have n0: "n0 \<le> length h" by (rule loop_inv_len)
  from ext have s: "same_upto (length h) h h1" and c: "closed_from (length h) h1"
    and A: "A \<subseteq> {length h..<length h1}"
    by (simp_all add: fresh_ext_def)
  from s have len: "length h \<le> length h1" by (simp add: same_upto_def)
  from s n0 show "same_upto n0 h h1" by (rule same_upto_mono)
  from inv have "closed_from n0 h" by (simp add: loop_inv_def)
  then have "closed_from n0 h1" using s c n0 by (rule closed_from_trans)
  with inv len show "loop_inv n0 h1 v output"
    by (auto simp add: loop_inv_def intro: vref_in_mono)
  from A n0 show "A \<subseteq> {n0..<length h1}" by auto
qed

lemma store_inv:
  assumes "loop_inv n0 h v output" and "n0 \<le> a" and "addrs x \<subseteq> {n0..<length h}"
  shows "same_upto n0 h (store h a x) \<and> loop_inv n0 (store h a x) v output"
proof -
  from assms(1) have n0: "n0 \<le> length h" by (rule loop_inv_len)
  from assms(1,3) have "closed_from n0 (store h a x)"
    by (simp add: loop_inv_def closed_from_store)
  moreover have "length (store h a x) = length h" by (simp add: store_def)
  ultimately show ?thesis
    using assms(1,2) n0 by (auto simp add: loop_inv_def same_upto_store intro: vref_in_mono)
qed

lemma Field_Set_ok:
  assumes inv: "loop_inv n0 h v output" and x: "addrs x \<subseteq> {n0..<length h}"
  shows "step_ok n0 h v output (Field_Set h output i x)"
proof (cases "Field_Set h output i x")
  case (SOk h')
  then obtain t fs where l: "load h output = Some (HStruct t fs)"
    and h': "h' = store h output (HStruct t (fs[i := Set_hfield (fs ! i) x]))"
    by (auto simp add: Field_Set_def split: option.splits hval.splits if_splits)
  from inv l have "addrs (HStruct t fs) \<subseteq> {n0..<length h}"
    using load_addrs [of n0 h "output" "HStruct t fs"] by (simp add: loop_inv_def)
  with x addrs_update [of t fs i x]
  have "addrs (HStruct t (fs[i := Set_hfield (fs ! i) x])) \<subseteq> {n0..<length h}"
    by blast
  with inv have "same_upto n0 h h' \<and> loop_inv n0 h' v output"
    unfolding h' by (intro store_inv) (simp_all add: loop_inv_def)
  with SOk show ?thesis by simp
next
  case (SPanic h')
  then have "h' = h"
    by (auto simp add: Field_Set_def split: option.splits hval.splits if_splits)
  with SPanic inv show ?thesis by (simp add: same_upto_refl loop_inv_len)
qed (auto simp add: Field_Set_def split: option.splits hval.splits if_splits)

lemma Field_Elem_Set_ok:
  assumes inv: "loop_inv n0 h v output" and x: "addrs x \<subseteq> {n0..<length h}"
  shows "step_ok n0 h v output (Field_Elem_Set h output i x)"
proof (cases "Field_Elem_Set h output i x")
  case (SOk h')
  then obtain t fs p where l: "load h output = Some (HStruct t fs)"
    and i: "i < length fs" and p: "hfval (fs ! i) = HPtr (Some p)"
    and h': "h' = store h p x"
    by (auto simp add: Field_Elem_Set_def split: option.splits hval.splits if_splits)
  from inv l have "addrs (HStruct t fs) \<subseteq> {n0..<length h}"
    using load_addrs [of n0 h "output" "HStruct t fs"] by (simp add: loop_inv_def)
  with addrs_nth [OF i, of t] p have "n0 \<le> p" by auto
  with inv x have "same_upto n0 h h' \<and> loop_inv n0 h' v output"
    unfolding h' by (intro store_inv)
  with SOk show ?thesis by simp
next
  case (SPanic h')
  then have "h' = h"
    by (auto simp add: Field_Elem_Set_def split: option.splits hval.splits if_splits)
  with SPanic inv show ?thesis by (simp add: same_upto_refl loop_inv_len)
qed (auto simp add: Field_Elem_Set_def split: option.splits hval.splits if_splits)

lemma step_ok_after:
  assumes inv: "loop_inv n0 h v output" and s: "same_upto n0 h h1"
    and st: "step_ok n0 h1 v output st"
  shows "step_ok n0 h v output st"
  using s st by (cases st) (auto intro: same_upto_trans)

lemma call_then_set:
  assumes inv: "loop_inv n0 h v output"
    and run: "ok_run h (StructEncryptTag_h n E h x key tn tv)"
    and wr: "\<And>h1 r. loop_inv n0 h1 v output \<Longrightarrow> addrs r \<subseteq> {n0..<length h1}
                \<Longrightarrow> step_ok n0 h1 v output (wr h1 r)"
  shows "step_ok n0 h v output
     (case StructEncryptTag_h n E h x key tn tv of
        Timeout \<Rightarrow> STimeout
      | Panicked h' \<Rightarrow> SPanic h'
      | Fin (_, Some err) h' \<Rightarrow> SErr err h'
      | Fin (encryptedField, None) h' \<Rightarrow> wr h' encryptedField)"
proof (cases "StructEncryptTag_h n E h x key tn tv")
  case Timeout
  then show ?thesis by simp
next
  case (Panicked h')
  with run inv show ?thesis
    by (auto intro: same_upto_mono loop_inv_len)
next
  case (Fin re h')
  obtain r e where re: "re = (r, e)" by (cases re)
  show ?thesis
  proof (cases e)
    case (Some err)
    with run inv Fin re show ?thesis
      by (auto intro: same_upto_mono loop_inv_len)
  next
    case None
    with run Fin re have ext: "fresh_ext h h' (addrs r)" by simp
    note lift = loop_inv_lift [OF inv ext]
    from wr [OF lift(2,3)] have "step_ok n0 h' v output (wr h' r)" .
    with inv lift(1) have "step_ok n0 h v output (wr h' r)" by (rule step_ok_after)
    with Fin re None show ?thesis by simp
  qed
qed

lemma StructEncryptTag_h_field_ok:
  assumes IH: "\<And>E h x key tn tv. key \<noteq> '''' \<Longrightarrow> ok_run h (StructEncryptTag_h n E h x key tn tv)"
    and key: "key \<noteq> ''''"
    and inv: "loop_inv n0 h v output"
  shows "step_ok n0 h v output (StructEncryptTag_h_field n E h v output i key tn tv)"
proof (cases "Field_h h v i")
  case None
  with inv show ?thesis
    by (simp add: StructEncryptTag_h_field.simps same_upto_refl loop_inv_len)
next
  case (Some f)
  note fa = Field_h_addrs [OF inv Some]
  have here: "step_ok n0 h v output (SOk h)" "step_ok n0 h v output (SPanic h)"
    "\<And>e. step_ok n0 h v output (SErr e h)"
    using inv by (simp_all add: same_upto_refl loop_inv_len)
  have str: "step_ok n0 h v output (Field_Set h output i (HString s))" for s
    using inv by (rule Field_Set_ok) simp
  have pstr: "step_ok n0 h v output (Field_Elem_Set h output i (HString s))" for s
    using inv by (rule Field_Elem_Set_ok) simp
  have sub: "step_ok n0 h v output
     (case StructEncryptTag_h n E h x key tn tv of
        Timeout \<Rightarrow> STimeout
      | Panicked h' \<Rightarrow> SPanic h'
      | Fin (_, Some err) h' \<Rightarrow> SErr err h'
      | Fin (encryptedField, None) h' \<Rightarrow> Field_Set h' output i encryptedField)" for x
    using inv IH [OF key] by (rule call_then_set) (rule Field_Set_ok)
  have psub: "step_ok n0 h v output
     (case StructEncryptTag_h n E h x key tn tv of
        Timeout \<Rightarrow> STimeout
      | Panicked h' \<Rightarrow> SPanic h'
      | Fin (_, Some err) h' \<Rightarrow> SErr err h'
      | Fin (encryptedField, None) h' \<Rightarrow> Field_Elem_Set h' output i encryptedField)" for x
    using inv IH [OF key] by (rule call_then_set) (rule Field_Elem_Set_ok)
  show ?thesis
    unfolding StructEncryptTag_h_field.simps [of n E h v "output" i key tn tv]
    using here str pstr sub psub
    by (simp add: Some split: sum.splits option.splits)
qed

lemma StructEncryptTag_h_fields_ok:
  assumes IH: "\<And>E h x key tn tv. key \<noteq> '''' \<Longrightarrow> ok_run h (StructEncryptTag_h n E h x key tn tv)"
    and key: "key \<noteq> ''''"
    and inv: "loop_inv n0 h v output"
  shows "step_ok n0 h v output (StructEncryptTag_h_fields n E h v output is key tn tv)"
  using inv
proof (induction "is" arbitrary: h)
  case Nil
  then show ?case by (simp add: same_upto_refl loop_inv_len)
next
  case (Cons i "is")
  note one = StructEncryptTag_h_field_ok [OF IH key Cons.prems, of E i tn tv]
  show ?case
  proof (cases "StructEncryptTag_h_field n E h v output i key tn tv")
    case (SOk h')
    with one have s: "same_upto n0 h h'" and inv': "loop_inv n0 h' v output" by simp_all
    from Cons.IH [OF inv'] have "step_ok n0 h' v output
        (StructEncryptTag_h_fields n E h' v output is key tn tv)" .
    with Cons.prems s have "step_ok n0 h v output
        (StructEncryptTag_h_fields n E h' v output is key tn tv)"
      by (rule step_ok_after)
    with SOk show ?thesis by simp
  qed (use one in simp_all)
qed

lemma same_upto_ext:
  assumes "same_upto (length h) h h1" and "same_upto (length h) (h1 @ xs) h3"
  shows "same_upto (length h) h h3"
proof -
  from assms(1) have "length h \<le> length h1" by (simp add: same_upto_def)
  then have "same_upto (length h) h1 (h1 @ xs)" by (rule same_upto_append)
  with assms(1) have "same_upto (length h) h (h1 @ xs)" by (rule same_upto_trans)
  then show ?thesis using assms(2) by (rule same_upto_trans)
qed

lemma StructEncryptTag_h_Suc_ok:
  assumes IH: "\<And>E h x key tn tv. key \<noteq> '''' \<Longrightarrow> ok_run h (StructEncryptTag_h n E h x key tn tv)"
    and key: "key \<noteq> ''''"
  shows "ok_run h (StructEncryptTag_h (Suc n) E h x key tn tv)"
proof (cases "Copy_h n h x")
  case Timeout
  with key show ?thesis by (simp add: StructEncryptTag_h.simps(2))
next
  case (Panicked h1)
  with Copy_h_fresh(1) [of n h x _ h1] key show ?thesis
    by (simp add: StructEncryptTag_h.simps(2))
next
  case (Fin c h1)
  with Copy_h_fresh(1) [of n h x c h1] have ext: "fresh_ext h h1 (addrs c)" by simp
  then have s1: "same_upto (length h) h h1" and c1: "closed_from (length h) h1"
    and ac: "addrs c \<subseteq> {length h..<length h1}"
    by (simp_all add: fresh_ext_def)
  from s1 have len1: "length h \<le> length h1" by (simp add: same_upto_def)
  let ?sel = "if Kind_h (ValueOf_h c) = KPtr
              then (case ValueOf_h c of Some (HPtr (Some a)) \<Rightarrow> Some (Cell a) | _ \<Rightarrow> None)
              else map_option Boxed (ValueOf_h c)"
  show ?thesis
  proof (cases ?sel)
    case None
    with key Fin s1 show ?thesis by (simp add: StructEncryptTag_h.simps(2))
  next
    case (Some v)
    have vin: "vref_in (length h) h1 v"
    proof (cases "Kind_h (ValueOf_h c) = KPtr")
      case True
      with Some obtain a where a: "ValueOf_h c = Some (HPtr (Some a))" and v: "v = Cell a"
        by (auto split: option.splits hval.splits)
      from addrs_ValueOf_h [OF a] ac have "length h \<le> a \<and> a < length h1" by auto
      with v show ?thesis by (simp add: vref_in_def)
    next
      case False
      with Some obtain bv where bv: "ValueOf_h c = Some bv" and v: "v = Boxed bv"
        by auto
      from addrs_ValueOf_h [OF bv] ac v show ?thesis by (simp add: vref_in_def)
    qed
    show ?thesis
    proof (cases "load_ref h1 v")
      case None
      with key Fin Some s1 show ?thesis
        by (simp add: StructEncryptTag_h.simps(2) split del: if_split)
    next
      case ld: (Some sv)
      show ?thesis
      proof (cases "\<exists>t fs. sv = HStruct t fs")
        case False
        with key Fin Some ld s1 show ?thesis
          by (cases sv) (simp_all add: StructEncryptTag_h.simps(2) split del: if_split)
      next
        case True
        then obtain t fs where sv: "sv = HStruct t fs" by blast
        let ?h2 = "h1 @ [HStruct t fs]"
        let ?st = "StructEncryptTag_h_fields n E ?h2 v (length h1) [0..<length fs] key tn tv"
        from ld sv have "load_ref h1 v = Some (HStruct t fs)" by simp
        with c1 vin have "addrs (HStruct t fs) \<subseteq> {length h..<length h1}"
          by (rule load_ref_addrs)
        then have "addrs (HStruct t fs) \<subseteq> {length h..<Suc (length h1)}" by auto
        with c1 have "closed_from (length h) ?h2" by (rule closed_from_append)
        with len1 vin have inv: "loop_inv (length h) ?h2 v (length h1)"
          by (auto simp add: loop_inv_def intro: vref_in_mono)
        have st: "step_ok (length h) ?h2 v (length h1) ?st"
          using IH key inv by (rule StructEncryptTag_h_fields_ok)
        have unf: "StructEncryptTag_h (Suc n) E h x key tn tv =
            (case ?st of
               STimeout \<Rightarrow> Timeout
             | SPanic h3 \<Rightarrow> Panicked h3
             | SErr err h3 \<Rightarrow> Fin (x, Some err) h3
             | SOk h3 \<Rightarrow>
                 if Kind_h (ValueOf_h c) = KPtr
                 then Fin (assertT_h x (HPtr (Some (length h1))), None) h3
                 else (case load h3 (length h1) of
                         None \<Rightarrow> Panicked h3
                       | Some out \<Rightarrow> Fin (assertT_h x out, None) h3))"
          using key Fin Some ld sv
          by (simp add: StructEncryptTag_h.simps(2) alloc_def split del: if_split)
        show ?thesis
        proof (cases ?st)
          case STimeout
          then show ?thesis unfolding unf by simp
        next
          case (SPanic h3)
          with st s1 show ?thesis unfolding unf by (auto intro: same_upto_ext)
        next
          case (SErr err h3)
          with st s1 show ?thesis unfolding unf by (auto intro: same_upto_ext)
        next
          case (SOk h3)
          with st have s3: "same_upto (length h) ?h2 h3"
            and inv3: "loop_inv (length h) h3 v (length h1)"
            by simp_all
          from s1 s3 have s: "same_upto (length h) h h3" by (rule same_upto_ext)
          from inv3 have c3: "closed_from (length h) h3" and o3: "length h1 < length h3"
            by (simp_all add: loop_inv_def)
          show ?thesis
          proof (cases "Kind_h (ValueOf_h c) = KPtr")
            case True
            from s c3 o3 len1 have "fresh_ext h h3 {length h1}"
              by (simp add: fresh_ext_def)
            with SOk True show ?thesis unfolding unf by simp
          next
            case False
            show ?thesis
            proof (cases "load h3 (length h1)")
              case None
              with SOk False s show ?thesis unfolding unf by simp
            next
              case (Some out)
              with load_addrs [OF c3 len1] have "addrs out \<subseteq> {length h..<length h3}"
                by simp
              with s c3 have "fresh_ext h h3 (addrs out)" by (simp add: fresh_ext_def)
              with SOk False Some show ?thesis unfolding unf by simp
            qed
          qed
        qed
      qed
    qed
  qed
qed

lemma StructEncryptTag_h_ok:
  "key \<noteq> '''' \<Longrightarrow> ok_run h (StructEncryptTag_h n E h x key tn tv)"
proof (induction n arbitrary: E h x key tn tv)
  case 0
  show ?case by simp
next
  case (Suc n)
  from Suc.IH Suc.prems show ?case by (rule StructEncryptTag_h_Suc_ok)
qed

fun items_ok :: "nat \<Rightarrow> heap \<Rightarrow> step \<Rightarrow> bool" where
  "items_ok n0 h STimeout = True"
| "items_ok n0 h (SPanic h') = same_upto n0 h h'"
| "items_ok n0 h (SErr e h') = same_upto n0 h h'"
| "items_ok n0 h (SOk h') = (same_upto n0 h h' \<and> closed_from n0 h')"

fun frame :: "heap \<Rightarrow> 'a run \<Rightarrow> bool" where
  "frame h Timeout = True"
| "frame h (Panicked h') = same_upto (length h) h h'"
| "frame h (Fin r h') = same_upto (length h) h h'"

lemma ok_run_frame: "ok_run h r \<Longrightarrow> frame h r"
  by (cases "(h, r)" rule: ok_run.cases) (auto simp add: fresh_ext_def)

lemma items_ok_after: "same_upto n0 h h1 \<Longrightarrow> items_ok n0 h1 st \<Longrightarrow> items_ok n0 h st"
  by (cases st) (auto intro: same_upto_trans)

lemma StructSliceEncryptTag_h_items_ok:
  assumes key: "key \<noteq> ''''"
  shows "closed_from n0 h \<Longrightarrow> n0 \<le> length h \<Longrightarrow> set as \<subseteq> {n0..<length h}
     \<Longrightarrow> items_ok n0 h (StructSliceEncryptTag_h_items n E h as key tn tv)"
proof (induction as arbitrary: h)
  case Nil
  then show ?case by (simp add: same_upto_refl)
next
  case (Cons a as)
  from Cons.prems have a: "n0 \<le> a" "a < length h" and as: "set as \<subseteq> {n0..<length h}"
    by auto
  then obtain item where item: "load h a = Some item" by (simp add: load_def)
  have skip: "items_ok n0 h (StructSliceEncryptTag_h_items n E h as key tn tv)"
    using Cons.prems(1,2) as by (rule Cons.IH)
  have call: "items_ok n0 h
     (case StructEncryptTag_h n E h item key tn tv of
        Timeout \<Rightarrow> STimeout
      | Panicked h' \<Rightarrow> SPanic h'
      | Fin (_, Some err) h' \<Rightarrow> SErr err h'
      | Fin (encryptedItem, None) h' \<Rightarrow>
          StructSliceEncryptTag_h_items n E (store h' a encryptedItem) as key tn tv)"
  proof (cases "StructEncryptTag_h n E h item key tn tv")
    case Timeout
    then show ?thesis by simp
  next
    case (Panicked h')
    with StructEncryptTag_h_ok [OF key, of h n E item tn tv] Cons.prems(2) show ?thesis
      by (auto intro: same_upto_mono)
  next
    case (Fin re h')
    obtain r e where re: "re = (r, e)" by (cases re)
    show ?thesis
    proof (cases e)
      case (Some err)
      with StructEncryptTag_h_ok [OF key, of h n E item tn tv] Cons.prems(2) Fin re
      show ?thesis by (auto intro: same_upto_mono)
    next
      case None
      with StructEncryptTag_h_ok [OF key, of h n E item tn tv] Fin re
      have ext: "fresh_ext h h' (addrs r)" by simp
      then have s: "same_upto (length h) h h'" and c: "closed_from (length h) h'"
        and ar: "addrs r \<subseteq> {length h..<length h'}"
        by (simp_all add: fresh_ext_def)
      from s have len: "length h \<le> length h'" by (simp add: same_upto_def)
      from s Cons.prems(2) have s0: "same_upto n0 h h'" by (rule same_upto_mono)
      from Cons.prems(1) s c Cons.prems(2) have c0: "closed_from n0 h'"
        by (rule closed_from_trans)
      from ar Cons.prems(2) have "addrs r \<subseteq> {n0..<length h'}" by auto
      with c0 have c1: "closed_from n0 (store h' a r)" by (rule closed_from_store)
      from a(1) Cons.prems(2) len have "same_upto n0 h' (store h' a r)"
        by (intro same_upto_store) auto
      with s0 have s1: "same_upto n0 h (store h' a r)" by (rule same_upto_trans)
      have l1: "n0 \<le> length (store h' a r)" using Cons.prems(2) len by (simp add: store_def)
      have as1: "set as \<subseteq> {n0..<length (store h' a r)}" using as len by (auto simp add: store_def)
      from Cons.IH [OF c1 l1 as1] s1
      have "items_ok n0 h
          (StructSliceEncryptTag_h_items n E (store h' a r) as key tn tv)"
        by (rule items_ok_after [rotated])
      with Fin re None show ?thesis by simp
    qed
  qed
  from skip call item show ?case by simp
qed

lemma StructSliceEncryptTag_h_ok:
  assumes key: "key \<noteq> ''''"
  shows "ok_run h (StructSliceEncryptTag_h n E h x key tn tv)"
proof (cases "Copy_h n h x")
  case Timeout
  with key show ?thesis by (simp add: StructSliceEncryptTag_h_def)
next
  case (Panicked h1)
  with Copy_h_fresh(1) [of n h x _ h1] key show ?thesis
    by (simp add: StructSliceEncryptTag_h_def)
next
  case (Fin c h1)
  with Copy_h_fresh(1) [of n h x c h1] have ext: "fresh_ext h h1 (addrs c)" by simp
  then have s1: "same_upto (length h) h h1" and c1: "closed_from (length h) h1"
    and ac: "addrs c \<subseteq> {length h..<length h1}"
    by (simp_all add: fresh_ext_def)
  from s1 have len1: "length h \<le> length h1" by (simp add: same_upto_def)
  show ?thesis
  proof (cases "\<exists>as. ValueOf_h c = Some (HSlice as)")
    case False
    with key Fin s1 show ?thesis
      by (auto simp add: StructSliceEncryptTag_h_def split: option.splits hval.splits)
  next
    case True
    then obtain as where as: "ValueOf_h c = Some (HSlice as)" by blast
    from addrs_ValueOf_h [OF as] ac have sub: "set as \<subseteq> {length h..<length h1}" by simp
    let ?st = "StructSliceEncryptTag_h_items n E h1 as key tn tv"
    have st: "items_ok (length h) h1 ?st"
      using key c1 len1 sub by (rule StructSliceEncryptTag_h_items_ok)
    show ?thesis
    proof (cases ?st)
      case STimeout
      with key Fin as show ?thesis by (simp add: StructSliceEncryptTag_h_def)
    next
      case (SPanic h2)
      with st s1 have "same_upto (length h) h h2" by (auto intro: same_upto_trans)
      with key Fin as SPanic show ?thesis by (simp add: StructSliceEncryptTag_h_def)
    next
      case (SErr e h2)
      with st s1 have "same_upto (length h) h h2" by (auto intro: same_upto_trans)
      with key Fin as SErr show ?thesis by (simp add: StructSliceEncryptTag_h_def)
    next
      case (SOk h2)
      with st have s2: "same_upto (length h) h1 h2" and c2: "closed_from (length h) h2"
        by simp_all
      from s1 s2 have s: "same_upto (length h) h h2" by (rule same_upto_trans)
      from s2 have "length h1 \<le> length h2" by (simp add: same_upto_def)
      with sub have "set as \<subseteq> {length h..<length h2}" by auto
      with s c2 have "fresh_ext h h2 (set as)" by (simp add: fresh_ext_def)
      with key Fin as SOk show ?thesis by (simp add: StructSliceEncryptTag_h_def)
    qed
  qed
qed

lemma StructEncryptTag_h_frame: "frame h (StructEncryptTag_h n E h x key tn tv)"
proof (cases "key = ''''")
  case True
  then show ?thesis
    by (cases n) (simp_all add: StructEncryptTag_h.simps(2) same_upto_refl)
next
  case False
  then show ?thesis by (intro ok_run_frame StructEncryptTag_h_ok)
qed

lemma StructSliceEncryptTag_h_frame: "frame h (StructSliceEncryptTag_h n E h x key tn tv)"
proof (cases "key = ''''")
  case True
  then show ?thesis by (simp add: StructSliceEncryptTag_h_def same_upto_refl)
next
  case False
  then show ?thesis by (intro ok_run_frame StructSliceEncryptTag_h_ok)
qed

lemma frame_cases:
  assumes "frame h r"
  shows "frame h (case r of
                    Timeout \<Rightarrow> Timeout
                  | Panicked h' \<Rightarrow> Panicked h'
                  | Fin (_, Some err) h' \<Rightarrow> Fin (x, Some err) h'
                  | Fin (result, None) h' \<Rightarrow> Fin (f result, None) h')"
  using assms by (cases r) (auto split: prod.splits option.splits)

lemma InterfaceEncryptTag_h_frame: "frame h (InterfaceEncryptTag_h n E h x key tn tv)"
  unfolding InterfaceEncryptTag_h_def
  by (auto simp add: same_upto_refl split: option.splits
      intro!: frame_cases StructEncryptTag_h_frame StructSliceEncryptTag_h_frame)

section \<open>The decrypt direction and the untyped entry points in memory\<close>

text \<open>
  The other six entry points of \<^verbatim>\<open>encrypt.go\<close>, with their reads and writes:
  \<^verbatim>\<open>StructDecryptTag\<close> (lines 179 to 263), \<^verbatim>\<open>StructSliceDecryptTag\<close> (267 to 305),
  \<^verbatim>\<open>InterfaceDecryptTag\<close> (309 to 344), \<^verbatim>\<open>StructEncryptTagInterface\<close> (348 to 432),
  \<^verbatim>\<open>StructSliceEncryptTagInterface\<close> (436 to 474), whose loop calls the typed
  \<^verbatim>\<open>StructEncryptTag\<close>, and \<^verbatim>\<open>InterfaceEncryptTagInterface\<close> (478 to 513).
\<close>

function StructDecryptTag_h :: "nat \<Rightarrow> cipher \<Rightarrow> heap \<Rightarrow> hval \<Rightarrow> string \<Rightarrow> string \<Rightarrow> string \<Rightarrow> (hval \<times> error option) run"
  and StructDecryptTag_h_fields :: "nat \<Rightarrow> cipher \<Rightarrow> heap \<Rightarrow> vref \<Rightarrow> nat \<Rightarrow> nat list \<Rightarrow> string \<Rightarrow> string \<Rightarrow> string \<Rightarrow> step"
  and StructDecryptTag_h_field :: "nat \<Rightarrow> cipher \<Rightarrow> heap \<Rightarrow> vref \<Rightarrow> nat \<Rightarrow> nat \<Rightarrow> string \<Rightarrow> string \<Rightarrow> string \<Rightarrow> step"
where
  "StructDecryptTag_h 0 Decrypt h input key tagName tagVal = Timeout"
| "StructDecryptTag_h (Suc n) Decrypt h input key tagName tagVal =
     (if key = '''' then Fin (input, None) h
      else
        (case Copy_h n h input of
           Timeout \<Rightarrow> Timeout
         | Panicked h1 \<Rightarrow> Panicked h1
         | Fin inputCopy h1 \<Rightarrow>
            (case (if Kind_h (ValueOf_h inputCopy) = KPtr
                   then (case ValueOf_h inputCopy of
                           Some (HPtr (Some a)) \<Rightarrow> Some (Cell a)
                         | _ \<Rightarrow> None)
                   else map_option Boxed (ValueOf_h inputCopy)) of
               None \<Rightarrow> Panicked h1
             | Some v \<Rightarrow>
                (case load_ref h1 v of
                   Some (HStruct t fs) \<Rightarrow>
                     (case alloc h1 (HStruct t fs) of
                        (output, h2) \<Rightarrow>
                          (case StructDecryptTag_h_fields n Decrypt h2 v output [0..<length fs]
                                  key tagName tagVal of
                             STimeout \<Rightarrow> Timeout
                           | SPanic h3 \<Rightarrow> Panicked h3
                           | SErr err h3 \<Rightarrow> Fin (input, Some err) h3
                           | SOk h3 \<Rightarrow>
                               if Kind_h (ValueOf_h inputCopy) = KPtr
                               then Fin (assertT_h input (HPtr (Some output)), None) h3
                               else (case load h3 output of
                                       None \<Rightarrow> Panicked h3
                                     | Some out \<Rightarrow> Fin (assertT_h input out, None) h3)))
                 | None \<Rightarrow> Panicked h1
                 | Some _ \<Rightarrow> Fin (input, Some (Errorf ''input is not a struct'')) h1))))"
| "StructDecryptTag_h_fields n Decrypt h v output [] key tagName tagVal = SOk h"
| "StructDecryptTag_h_fields n Decrypt h v output (i # is) key tagName tagVal =
     (case StructDecryptTag_h_field n Decrypt h v output i key tagName tagVal of
        STimeout \<Rightarrow> STimeout
      | SPanic h' \<Rightarrow> SPanic h'
      | SErr err h' \<Rightarrow> SErr err h'
      | SOk h' \<Rightarrow> StructDecryptTag_h_fields n Decrypt h' v output is key tagName tagVal)"
| "StructDecryptTag_h_field n Decrypt h v output i key tagName tagVal =
     (case Field_h h v i of
        None \<Rightarrow> SPanic h
      | Some f \<Rightarrow>
         if Kind_h (Some (hfval f)) = KStruct \<and> TypeString_h (Some (hfval f)) = ''time.Time''
         then SOk h
         else if Kind_h (Some (hfval f)) = KPtr \<and> Kind_h (Elem_h h (Some (hfval f))) = KStruct
                 \<and> TypeString_h (Elem_h h (Some (hfval f))) = ''time.Time''
         then SOk h
         else if Tag_Get (htag f) tagName = tagVal \<and> Kind_h (Some (hfval f)) = KString
         then (case Decrypt (StringOf_h (Some (hfval f))) key of
                 Inl err \<Rightarrow> SErr err h
               | Inr decryptedValue \<Rightarrow>
                   if hexported f then Field_Set h output i (HString decryptedValue)
                   else SPanic h)
         else if Tag_Get (htag f) tagName = tagVal \<and> Kind_h (Some (hfval f)) = KPtr
                 \<and> Kind_h (Elem_h h (Some (hfval f))) = KString
         then (case Decrypt (StringOf_h (Elem_h h (Some (hfval f)))) key of
                 Inl err \<Rightarrow> SErr err h
               | Inr decryptedValue \<Rightarrow>
                   if hexported f then Field_Elem_Set h output i (HString decryptedValue)
                   else SPanic h)
         else if Kind_h (Some (hfval f)) = KStruct
         then (if \<not> hexported f then SPanic h
               else (case StructDecryptTag_h n Decrypt h (hfval f) key tagName tagVal of
                       Timeout \<Rightarrow> STimeout
                     | Panicked h' \<Rightarrow> SPanic h'
                     | Fin (_, Some err) h' \<Rightarrow> SErr err h'
                     | Fin (decryptedField, None) h' \<Rightarrow> Field_Set h' output i decryptedField))
         else if Kind_h (Some (hfval f)) = KPtr \<and> Kind_h (Elem_h h (Some (hfval f))) = KStruct
         then (if \<not> hexported f then SPanic h
               else (case Elem_h h (Some (hfval f)) of
                       None \<Rightarrow> SPanic h
                     | Some e \<Rightarrow>
                         (case StructDecryptTag_h n Decrypt h e key tagName tagVal of
                            Timeout \<Rightarrow> STimeout
                          | Panicked h' \<Rightarrow> SPanic h'
                          | Fin (_, Some err) h' \<Rightarrow> SErr err h'
                          | Fin (decryptedField, None) h' \<Rightarrow>
                              Field_Elem_Set h' output i decryptedField)))
         else SOk h)"
  by pat_completeness auto
termination
  by (relation "inv_image (less_than <*lex*> less_than) (\<lambda>x. case x of
          Inl (n, _) \<Rightarrow> (n, 0::nat)
        | Inr (Inl (n, _, _, _, _, is, _)) \<Rightarrow> (n, 2 + length is)
        | Inr (Inr (n, _)) \<Rightarrow> (n, 1))") auto

declare StructDecryptTag_h.simps(2) [simp del] StructDecryptTag_h_field.simps [simp del]

fun StructSliceDecryptTag_h_items :: "nat \<Rightarrow> cipher \<Rightarrow> heap \<Rightarrow> nat list \<Rightarrow> string \<Rightarrow> string \<Rightarrow> string \<Rightarrow> step" where
  "StructSliceDecryptTag_h_items n Decrypt h [] key tagName tagVal = SOk h"
| "StructSliceDecryptTag_h_items n Decrypt h (a # as) key tagName tagVal =
     (case load h a of
        None \<Rightarrow> SPanic h
      | Some item \<Rightarrow>
          if Kind_h (Some item) = KStruct
          then (case StructDecryptTag_h n Decrypt h item key tagName tagVal of
                  Timeout \<Rightarrow> STimeout
                | Panicked h' \<Rightarrow> SPanic h'
                | Fin (_, Some err) h' \<Rightarrow> SErr err h'
                | Fin (decryptedItem, None) h' \<Rightarrow>
                    StructSliceDecryptTag_h_items n Decrypt (store h' a decryptedItem) as
                      key tagName tagVal)
          else if Kind_h (Some item) = KPtr \<and> Kind_h (Elem_h h (Some item)) = KStruct
          then (case StructDecryptTag_h n Decrypt h item key tagName tagVal of
                  Timeout \<Rightarrow> STimeout
                | Panicked h' \<Rightarrow> SPanic h'
                | Fin (_, Some err) h' \<Rightarrow> SErr err h'
                | Fin (decryptedItem, None) h' \<Rightarrow>
                    StructSliceDecryptTag_h_items n Decrypt (store h' a decryptedItem) as
                      key tagName tagVal)
          else StructSliceDecryptTag_h_items n Decrypt h as key tagName tagVal)"

definition StructSliceDecryptTag_h :: "nat \<Rightarrow> cipher \<Rightarrow> heap \<Rightarrow> hval \<Rightarrow> string \<Rightarrow> string \<Rightarrow> string \<Rightarrow> (hval \<times> error option) run" where
  "StructSliceDecryptTag_h n Decrypt h input key tagName tagVal =
     (if key = '''' then Fin (input, None) h
      else
        (case Copy_h n h input of
           Timeout \<Rightarrow> Timeout
         | Panicked h1 \<Rightarrow> Panicked h1
         | Fin inputCopy h1 \<Rightarrow>
             (case ValueOf_h inputCopy of
                Some (HSlice as) \<Rightarrow>
                  (case StructSliceDecryptTag_h_items n Decrypt h1 as key tagName tagVal of
                     STimeout \<Rightarrow> Timeout
                   | SPanic h2 \<Rightarrow> Panicked h2
                   | SErr err h2 \<Rightarrow> Fin (input, Some err) h2
                   | SOk h2 \<Rightarrow> Fin (assertT_h input (HSlice as), None) h2)
              | _ \<Rightarrow> Fin (input, Some (Errorf ''input is not a slice'')) h1)))"

definition InterfaceDecryptTag_h :: "nat \<Rightarrow> cipher \<Rightarrow> heap \<Rightarrow> hval \<Rightarrow> string \<Rightarrow> string \<Rightarrow> string \<Rightarrow> (hval \<times> error option) run" where
  "InterfaceDecryptTag_h n Decrypt h input key tagName tagVal =
     (if key = '''' then Fin (input, None) h
      else
        (case ValueOf_h input of
           None \<Rightarrow> Fin (input, None) h
         | Some v \<Rightarrow>
             if Kind_h (Some v) = KStruct
             then (case StructDecryptTag_h n Decrypt h v key tagName tagVal of
                     Timeout \<Rightarrow> Timeout
                   | Panicked h' \<Rightarrow> Panicked h'
                   | Fin (_, Some err) h' \<Rightarrow> Fin (input, Some err) h'
                   | Fin (result, None) h' \<Rightarrow> Fin (assertT_h input result, None) h')
             else if Kind_h (Some v) = KPtr \<and> Kind_h (Elem_h h (Some v)) = KStruct
             then (case StructDecryptTag_h n Decrypt h v key tagName tagVal of
                     Timeout \<Rightarrow> Timeout
                   | Panicked h' \<Rightarrow> Panicked h'
                   | Fin (_, Some err) h' \<Rightarrow> Fin (input, Some err) h'
                   | Fin (result, None) h' \<Rightarrow> Fin (assertT_h input result, None) h')
             else if Kind_h (Some v) = KSlice
             then (case StructSliceDecryptTag_h n Decrypt h v key tagName tagVal of
                     Timeout \<Rightarrow> Timeout
                   | Panicked h' \<Rightarrow> Panicked h'
                   | Fin (_, Some err) h' \<Rightarrow> Fin (input, Some err) h'
                   | Fin (result, None) h' \<Rightarrow> Fin (assertT_h input result, None) h')
             else Fin (input, None) h))"

function StructEncryptTagInterface_h :: "nat \<Rightarrow> cipher \<Rightarrow> heap \<Rightarrow> hval \<Rightarrow> string \<Rightarrow> string \<Rightarrow> string \<Rightarrow> (hval \<times> error option) run"
  and StructEncryptTagInterface_h_fields :: "nat \<Rightarrow> cipher \<Rightarrow> heap \<Rightarrow> vref \<Rightarrow> nat \<Rightarrow> nat list \<Rightarrow> string \<Rightarrow> string \<Rightarrow> string \<Rightarrow> step"
  and StructEncryptTagInterface_h_field :: "nat \<Rightarrow> cipher \<Rightarrow> heap \<Rightarrow> vref \<Rightarrow> nat \<Rightarrow> nat \<Rightarrow> string \<Rightarrow> string \<Rightarrow> string \<Rightarrow> step"
where
  "StructEncryptTagInterface_h 0 Encrypt h input key tagName tagVal = Timeout"
| "StructEncryptTagInterface_h (Suc n) Encrypt h input key tagName tagVal =
     (if key = '''' then Fin (input, None) h
      else
        (case Copy_h n h input of
           Timeout \<Rightarrow> Timeout
         | Panicked h1 \<Rightarrow> Panicked h1
         | Fin inputCopy h1 \<Rightarrow>
            (case (if Kind_h (ValueOf_h inputCopy) = KPtr
                   then (case ValueOf_h inputCopy of
                           Some (HPtr (Some a)) \<Rightarrow> Some (Cell a)
                         | _ \<Rightarrow> None)
                   else map_option Boxed (ValueOf_h inputCopy)) of
               None \<Rightarrow> Panicked h1
             | Some v \<Rightarrow>
                (case load_ref h1 v of
                   Some (HStruct t fs) \<Rightarrow>
                     (case alloc h1 (HStruct t fs) of
                        (output, h2) \<Rightarrow>
                          (case StructEncryptTagInterface_h_fields n Encrypt h2 v output [0..<length fs]
                                  key tagName tagVal of
                             STimeout \<Rightarrow> Timeout
                           | SPanic h3 \<Rightarrow> Panicked h3
                           | SErr err h3 \<Rightarrow> Fin (input, Some err) h3
                           | SOk h3 \<Rightarrow>
                               if Kind_h (ValueOf_h inputCopy) = KPtr
                               then Fin (assertT_h input (HPtr (Some output)), None) h3
                               else (case load h3 output of
                                       None \<Rightarrow> Panicked h3
                                     | Some out \<Rightarrow> Fin (assertT_h input out, None) h3)))
                 | None \<Rightarrow> Panicked h1
                 | Some _ \<Rightarrow> Fin (input, Some (Errorf ''input is not a struct'')) h1))))"
| "StructEncryptTagInterface_h_fields n Encrypt h v output [] key tagName tagVal = SOk h"
| "StructEncryptTagInterface_h_fields n Encrypt h v output (i # is) key tagName tagVal =
     (case StructEncryptTagInterface_h_field n Encrypt h v output i key tagName tagVal of
        STimeout \<Rightarrow> STimeout
      | SPanic h' \<Rightarrow> SPanic h'
      | SErr err h' \<Rightarrow> SErr err h'
      | SOk h' \<Rightarrow> StructEncryptTagInterface_h_fields n Encrypt h' v output is key tagName tagVal)"
| "StructEncryptTagInterface_h_field n Encrypt h v output i key tagName tagVal =
     (case Field_h h v i of
        None \<Rightarrow> SPanic h
      | Some f \<Rightarrow>
         if Kind_h (Some (hfval f)) = KStruct \<and> TypeString_h (Some (hfval f)) = ''time.Time''
         then SOk h
         else if Kind_h (Some (hfval f)) = KPtr \<and> Kind_h (Elem_h h (Some (hfval f))) = KStruct
                 \<and> TypeString_h (Elem_h h (Some (hfval f))) = ''time.Time''
         then SOk h
         else if Tag_Get (htag f) tagName = tagVal \<and> Kind_h (Some (hfval f)) = KString
         then (case Encrypt (StringOf_h (Some (hfval f))) key of
                 Inl err \<Rightarrow> SErr err h
               | Inr encryptedValue \<Rightarrow>
                   if hexported f then Field_Set h output i (HString encryptedValue)
                   else SPanic h)
         else if Tag_Get (htag f) tagName = tagVal \<and> Kind_h (Some (hfval f)) = KPtr
                 \<and> Kind_h (Elem_h h (Some (hfval f))) = KString
         then (case Encrypt (StringOf_h (Elem_h h (Some (hfval f)))) key of
                 Inl err \<Rightarrow> SErr err h
               | Inr encryptedValue \<Rightarrow>
                   if hexported f then Field_Elem_Set h output i (HString encryptedValue)
                   else SPanic h)
         else if Kind_h (Some (hfval f)) = KStruct
         then (if \<not> hexported f then SPanic h
               else (case StructEncryptTagInterface_h n Encrypt h (hfval f) key tagName tagVal of
                       Timeout \<Rightarrow> STimeout
                     | Panicked h' \<Rightarrow> SPanic h'
                     | Fin (_, Some err) h' \<Rightarrow> SErr err h'
                     | Fin (encryptedField, None) h' \<Rightarrow> Field_Set h' output i encryptedField))
         else if Kind_h (Some (hfval f)) = KPtr \<and> Kind_h (Elem_h h (Some (hfval f))) = KStruct
         then (if \<not> hexported f then SPanic h
               else (case Elem_h h (Some (hfval f)) of
                       None \<Rightarrow> SPanic h
                     | Some e \<Rightarrow>
                         (case StructEncryptTagInterface_h n Encrypt h e key tagName tagVal of
                            Timeout \<Rightarrow> STimeout
                          | Panicked h' \<Rightarrow> SPanic h'
                          | Fin (_, Some err) h' \<Rightarrow> SErr err h'
                          | Fin (encryptedField, None) h' \<Rightarrow>
                              Field_Elem_Set h' output i encryptedField)))
         else SOk h)"
  by pat_completeness auto
termination
  by (relation "inv_image (less_than <*lex*> less_than) (\<lambda>x. case x of
          Inl (n, _) \<Rightarrow> (n, 0::nat)
        | Inr (Inl (n, _, _, _, _, is, _)) \<Rightarrow> (n, 2 + length is)
        | Inr (Inr (n, _)) \<Rightarrow> (n, 1))") auto

declare StructEncryptTagInterface_h.simps(2) [simp del] StructEncryptTagInterface_h_field.simps [simp del]

fun StructSliceEncryptTagInterface_h_items :: "nat \<Rightarrow> cipher \<Rightarrow> heap \<Rightarrow> nat list \<Rightarrow> string \<Rightarrow> string \<Rightarrow> string \<Rightarrow> step" where
  "StructSliceEncryptTagInterface_h_items n Encrypt h [] key tagName tagVal = SOk h"
| "StructSliceEncryptTagInterface_h_items n Encrypt h (a # as) key tagName tagVal =
     (case load h a of
        None \<Rightarrow> SPanic h
      | Some item \<Rightarrow>
          if Kind_h (Some item) = KStruct
          then (case StructEncryptTag_h n Encrypt h item key tagName tagVal of
                  Timeout \<Rightarrow> STimeout
                | Panicked h' \<Rightarrow> SPanic h'
                | Fin (_, Some err) h' \<Rightarrow> SErr err h'
                | Fin (encryptedItem, None) h' \<Rightarrow>
                    StructSliceEncryptTagInterface_h_items n Encrypt (store h' a encryptedItem) as
                      key tagName tagVal)
          else if Kind_h (Some item) = KPtr \<and> Kind_h (Elem_h h (Some item)) = KStruct
          then (case StructEncryptTag_h n Encrypt h item key tagName tagVal of
                  Timeout \<Rightarrow> STimeout
                | Panicked h' \<Rightarrow> SPanic h'
                | Fin (_, Some err) h' \<Rightarrow> SErr err h'
                | Fin (encryptedItem, None) h' \<Rightarrow>
                    StructSliceEncryptTagInterface_h_items n Encrypt (store h' a encryptedItem) as
                      key tagName tagVal)
          else StructSliceEncryptTagInterface_h_items n Encrypt h as key tagName tagVal)"

definition StructSliceEncryptTagInterface_h :: "nat \<Rightarrow> cipher \<Rightarrow> heap \<Rightarrow> hval \<Rightarrow> string \<Rightarrow> string \<Rightarrow> string \<Rightarrow> (hval \<times> error option) run" where
  "StructSliceEncryptTagInterface_h n Encrypt h input key tagName tagVal =
     (if key = '''' then Fin (input, None) h
      else
        (case Copy_h n h input of
           Timeout \<Rightarrow> Timeout
         | Panicked h1 \<Rightarrow> Panicked h1
         | Fin inputCopy h1 \<Rightarrow>
             (case ValueOf_h inputCopy of
                Some (HSlice as) \<Rightarrow>
                  (case StructSliceEncryptTagInterface_h_items n Encrypt h1 as key tagName tagVal of
                     STimeout \<Rightarrow> Timeout
                   | SPanic h2 \<Rightarrow> Panicked h2
                   | SErr err h2 \<Rightarrow> Fin (input, Some err) h2
                   | SOk h2 \<Rightarrow> Fin (assertT_h input (HSlice as), None) h2)
              | _ \<Rightarrow> Fin (input, Some (Errorf ''input is not a slice'')) h1)))"

definition InterfaceEncryptTagInterface_h :: "nat \<Rightarrow> cipher \<Rightarrow> heap \<Rightarrow> hval \<Rightarrow> string \<Rightarrow> string \<Rightarrow> string \<Rightarrow> (hval \<times> error option) run" where
  "InterfaceEncryptTagInterface_h n Encrypt h input key tagName tagVal =
     (if key = '''' then Fin (input, None) h
      else
        (case ValueOf_h input of
           None \<Rightarrow> Fin (input, None) h
         | Some v \<Rightarrow>
             if Kind_h (Some v) = KStruct
             then (case StructEncryptTagInterface_h n Encrypt h v key tagName tagVal of
                     Timeout \<Rightarrow> Timeout
                   | Panicked h' \<Rightarrow> Panicked h'
                   | Fin (_, Some err) h' \<Rightarrow> Fin (input, Some err) h'
                   | Fin (result, None) h' \<Rightarrow> Fin (assertT_h input result, None) h')
             else if Kind_h (Some v) = KPtr \<and> Kind_h (Elem_h h (Some v)) = KStruct
             then (case StructEncryptTagInterface_h n Encrypt h v key tagName tagVal of
                     Timeout \<Rightarrow> Timeout
                   | Panicked h' \<Rightarrow> Panicked h'
                   | Fin (_, Some err) h' \<Rightarrow> Fin (input, Some err) h'
                   | Fin (result, None) h' \<Rightarrow> Fin (assertT_h input result, None) h')
             else if Kind_h (Some v) = KSlice
             then (case StructSliceEncryptTagInterface_h n Encrypt h v key tagName tagVal of
                     Timeout \<Rightarrow> Timeout
                   | Panicked h' \<Rightarrow> Panicked h'
                   | Fin (_, Some err) h' \<Rightarrow> Fin (input, Some err) h'
                   | Fin (result, None) h' \<Rightarrow> Fin (assertT_h input result, None) h')
             else Fin (input, None) h))"

definition entry_points_h :: "(nat \<Rightarrow> cipher \<Rightarrow> heap \<Rightarrow> hval \<Rightarrow> string \<Rightarrow> string \<Rightarrow> string \<Rightarrow> (hval \<times> error option) run) list" where
  "entry_points_h =
     [StructEncryptTag_h, StructSliceEncryptTag_h, InterfaceEncryptTag_h,
      StructDecryptTag_h, StructSliceDecryptTag_h, InterfaceDecryptTag_h,
      StructEncryptTagInterface_h, StructSliceEncryptTagInterface_h,
      InterfaceEncryptTagInterface_h]"

definition sample_heap :: heap where
  "sample_heap =
     [HString ''a@b'',
      HStruct ''main.User''
        [HField ''Name'' True [(''encrypt'', ''true'')] (HString ''alice''),
         HField ''Mail'' True [(''encrypt'', ''true'')] (HPtr (Some 0))]]"

lemma StructDecryptTag_h_eq:
  "StructDecryptTag_h n c h x k tn tv = StructEncryptTag_h n c h x k tn tv"
  "StructDecryptTag_h_fields n c h v out is k tn tv = StructEncryptTag_h_fields n c h v out is k tn tv"
  "StructDecryptTag_h_field n c h v out i k tn tv = StructEncryptTag_h_field n c h v out i k tn tv"
proof (induction n c h x k tn tv and n c h v out "is" k tn tv and n c h v out i k tn tv
    rule: StructEncryptTag_h_StructEncryptTag_h_fields_StructEncryptTag_h_field.induct)
  case (1 Encrypt h input key tagName tagVal)
  show ?case by simp
next
  case (2 n Encrypt h input key tagName tagVal)
  then show ?case
    by (simp add: StructEncryptTag_h.simps(2) StructDecryptTag_h.simps(2)
        split: run.splits option.splits hval.splits prod.splits cong: if_cong)
next
  case (3 n Encrypt h v out key tagName tagVal)
  show ?case by simp
next
  case (4 n Encrypt h v out i "is" key tagName tagVal)
  then show ?case by (simp split: step.splits)
next
  case (5 n Encrypt h v out i key tagName tagVal)
  then show ?case
    by (simp add: StructEncryptTag_h_field.simps StructDecryptTag_h_field.simps
        split: option.splits)
qed

lemma StructEncryptTagInterface_h_eq:
  "StructEncryptTagInterface_h n c h x k tn tv = StructEncryptTag_h n c h x k tn tv"
  "StructEncryptTagInterface_h_fields n c h v out is k tn tv = StructEncryptTag_h_fields n c h v out is k tn tv"
  "StructEncryptTagInterface_h_field n c h v out i k tn tv = StructEncryptTag_h_field n c h v out i k tn tv"
proof (induction n c h x k tn tv and n c h v out "is" k tn tv and n c h v out i k tn tv
    rule: StructEncryptTag_h_StructEncryptTag_h_fields_StructEncryptTag_h_field.induct)
  case (1 Encrypt h input key tagName tagVal)
  show ?case by simp
next
  case (2 n Encrypt h input key tagName tagVal)
  then show ?case
    by (simp add: StructEncryptTag_h.simps(2) StructEncryptTagInterface_h.simps(2)
        split: run.splits option.splits hval.splits prod.splits cong: if_cong)
next
  case (3 n Encrypt h v out key tagName tagVal)
  show ?case by simp
next
  case (4 n Encrypt h v out i "is" key tagName tagVal)
  then show ?case by (simp split: step.splits)
next
  case (5 n Encrypt h v out i key tagName tagVal)
  then show ?case
    by (simp add: StructEncryptTag_h_field.simps StructEncryptTagInterface_h_field.simps
        split: option.splits)
qed

lemma StructDecryptTag_h_fun_eq: "StructDecryptTag_h = StructEncryptTag_h"
  by (intro ext) (rule StructDecryptTag_h_eq)

lemma StructEncryptTagInterface_h_fun_eq: "StructEncryptTagInterface_h = StructEncryptTag_h"
  by (intro ext) (rule StructEncryptTagInterface_h_eq)

lemma StructSliceDecryptTag_h_items_fun_eq:
  "StructSliceDecryptTag_h_items = StructSliceEncryptTag_h_items"
proof (intro ext)
  fix n c h as k tn tv
  show "StructSliceDecryptTag_h_items n c h as k tn tv
          = StructSliceEncryptTag_h_items n c h as k tn tv"
    by (induction as arbitrary: h)
       (simp_all add: StructDecryptTag_h_eq split: option.splits run.splits prod.splits)
qed

lemma StructSliceEncryptTagInterface_h_items_fun_eq:
  "StructSliceEncryptTagInterface_h_items = StructSliceEncryptTag_h_items"
proof (intro ext)
  fix n c h as k tn tv
  show "StructSliceEncryptTagInterface_h_items n c h as k tn tv
          = StructSliceEncryptTag_h_items n c h as k tn tv"
    by (induction as arbitrary: h)
       (simp_all split: option.splits run.splits prod.splits)
qed

lemma StructSliceDecryptTag_h_fun_eq: "StructSliceDecryptTag_h = StructSliceEncryptTag_h"
  unfolding StructSliceDecryptTag_h_def StructSliceEncryptTag_h_def
    StructSliceDecryptTag_h_items_fun_eq
  by (rule refl)

lemma StructSliceEncryptTagInterface_h_fun_eq:
  "StructSliceEncryptTagInterface_h = StructSliceEncryptTag_h"
  unfolding StructSliceEncryptTagInterface_h_def StructSliceEncryptTag_h_def
    StructSliceEncryptTagInterface_h_items_fun_eq
  by (rule refl)

lemma InterfaceDecryptTag_h_fun_eq: "InterfaceDecryptTag_h = InterfaceEncryptTag_h"
  unfolding InterfaceDecryptTag_h_def InterfaceEncryptTag_h_def StructDecryptTag_h_fun_eq
    StructSliceDecryptTag_h_fun_eq
  by (rule refl)

lemma InterfaceEncryptTagInterface_h_fun_eq:
  "InterfaceEncryptTagInterface_h = InterfaceEncryptTag_h"
  unfolding InterfaceEncryptTagInterface_h_def InterfaceEncryptTag_h_def
    StructEncryptTagInterface_h_fun_eq StructSliceEncryptTagInterface_h_fun_eq
  by (rule refl)

lemma same_upto_length: "same_upto (length h) h h' \<Longrightarrow> length h \<le> length h' \<and> take (length h) h' = h"
  by (simp add: same_upto_def)

text \<open>
  C2. Let any of the nine entry points run on any heap and argument, with any key, tag name,
  tag value and cipher, with Copy a deep copy as the spec describes it. When the call returns
  (with or without error) or panics, every cell that existed before the call holds the value
  it held before: the heap has only grown, and reading any old address gives the old value.
  So the caller's argument and everything reachable from it are unchanged; what the call
  wrote lies in cells it allocated itself.
\<close>

theorem caller_memory_unchanged:
  assumes "F \<in> set entry_points_h"
    and "F n c h x key tn tv = Fin r h' \<or> F n c h x key tn tv = Panicked h'"
  shows "length h \<le> length h' \<and> take (length h) h' = h
         \<and> (\<forall>a<length h. load h' a = load h a)"
proof -
  from assms(1)
  have "F = StructEncryptTag_h \<or> F = StructSliceEncryptTag_h \<or> F = InterfaceEncryptTag_h"
    by (auto simp add: entry_points_h_def StructDecryptTag_h_fun_eq
        StructEncryptTagInterface_h_fun_eq StructSliceDecryptTag_h_fun_eq
        StructSliceEncryptTagInterface_h_fun_eq InterfaceDecryptTag_h_fun_eq
        InterfaceEncryptTagInterface_h_fun_eq)
  then have "frame h (F n c h x key tn tv)"
    by (auto intro: StructEncryptTag_h_frame StructSliceEncryptTag_h_frame
        InterfaceEncryptTag_h_frame)
  with assms(2) have "same_upto (length h) h h'" by auto
  then have len: "length h \<le> length h'" and tk: "take (length h) h' = h"
    by (simp_all add: same_upto_def)
  have "load h' a = load h a" if "a < length h" for a
  proof -
    from tk have "take (length h) h' ! a = h ! a" by simp
    with that have "h' ! a = h ! a" by simp
    with that len show ?thesis by (simp add: load_def)
  qed
  with len tk show ?thesis by blast
qed

lemma sample_heap_run:
  "StructEncryptTag_h 5 toy_Encrypt sample_heap (HPtr (Some 1)) ''deadbeef'' ''encrypt'' ''true''
     = Fin (HPtr (Some 4), None)
         (sample_heap @
          [HString ''deadbeefa@b'',
           HStruct ''main.User''
             [HField ''Name'' True [(''encrypt'', ''true'')] (HString ''alice''),
              HField ''Mail'' True [(''encrypt'', ''true'')] (HPtr (Some 2))],
           HStruct ''main.User''
             [HField ''Name'' True [(''encrypt'', ''true'')] (HString ''deadbeefalice''),
              HField ''Mail'' True [(''encrypt'', ''true'')] (HPtr (Some 2))]])"
  by code_simp

theorem caller_memory_unchanged_witness:
  "StructEncryptTag_h \<in> set entry_points_h
   \<and> StructEncryptTag_h 5 toy_Encrypt sample_heap (HPtr (Some 1)) ''deadbeef'' ''encrypt'' ''true''
       = Fin (HPtr (Some 4), None)
           (sample_heap @
            [HString ''deadbeefa@b'',
             HStruct ''main.User''
               [HField ''Name'' True [(''encrypt'', ''true'')] (HString ''alice''),
                HField ''Mail'' True [(''encrypt'', ''true'')] (HPtr (Some 2))],
             HStruct ''main.User''
               [HField ''Name'' True [(''encrypt'', ''true'')] (HString ''deadbeefalice''),
                HField ''Mail'' True [(''encrypt'', ''true'')] (HPtr (Some 2))]])
   \<and> take (length sample_heap)
         (sample_heap @
            [HString ''deadbeefa@b'',
             HStruct ''main.User''
               [HField ''Name'' True [(''encrypt'', ''true'')] (HString ''alice''),
                HField ''Mail'' True [(''encrypt'', ''true'')] (HPtr (Some 2))],
             HStruct ''main.User''
               [HField ''Name'' True [(''encrypt'', ''true'')] (HString ''deadbeefalice''),
                HField ''Mail'' True [(''encrypt'', ''true'')] (HPtr (Some 2))]])
       = sample_heap"
  using caller_memory_unchanged [of StructEncryptTag_h 5 toy_Encrypt sample_heap
      "HPtr (Some 1)" "''deadbeef''" "''encrypt''" "''true''" "(HPtr (Some 4), None)"
      "sample_heap @
            [HString ''deadbeefa@b'',
             HStruct ''main.User''
               [HField ''Name'' True [(''encrypt'', ''true'')] (HString ''alice''),
                HField ''Mail'' True [(''encrypt'', ''true'')] (HPtr (Some 2))],
             HStruct ''main.User''
               [HField ''Name'' True [(''encrypt'', ''true'')] (HString ''deadbeefalice''),
                HField ''Mail'' True [(''encrypt'', ''true'')] (HPtr (Some 2))]]"]
    sample_heap_run
  by (simp add: entry_points_h_def)

end
